theory Spec2Isabelle
  imports Complex_Main "HOL-Library.AList" "HOL-Library.Char_ord" "HOL-Library.List_Lexorder"
begin

section \<open>Daisy Emojis: the emoji manager of main.py\<close>

text \<open>
  The script reconciles a folder of image files with the emoji set of a Discord
  application. Everything it does to the outside (HTTP requests, pauses, scratch files,
  the report file) is kept in an explicit \<open>world\<close> value that the functions take and
  return; everything the outside decides (the server's answers, the folder's content,
  whether the SVG renderer works, the order in which a Python set is walked) is read from
  an \<open>env\<close> record. An exception that the script does not catch is the \<open>Inl\<close> of a sum.
  Console output (\<open>print\<close>) is not part of the model, and neither is \<open>get_image_hash\<close>,
  which nothing calls.

  A string is a list of characters; one \<open>char\<close> stands for one character of a Python
  \<open>str\<close>, so \<open>length\<close> is Python's \<open>len\<close>.
\<close>

subsection \<open>Python and library helpers\<close>

type_synonym path = string
type_synonym bytes = string

text \<open>\<open>str.lower\<close> on the letters A to Z.\<close>

definition lower_char :: "char \<Rightarrow> char" where
  "lower_char c =
     (case map_of (zip ''ABCDEFGHIJKLMNOPQRSTUVWXYZ'' ''abcdefghijklmnopqrstuvwxyz'') c of
        None \<Rightarrow> c
      | Some d \<Rightarrow> d)"

definition lower :: "string \<Rightarrow> string" where
  "lower s = map lower_char s"

text \<open>
  \<open>pathlib\<close>: a path is its text as \<open>rglob\<close> and \<open>tempfile\<close> give it, with \<open>/\<close> between
  the components; the name of a path is its final component; \<open>suffix\<close> and \<open>stem\<close> split
  the name at its last dot, unless that dot is the first or the last character of the
  name.
\<close>

definition path_name :: "path \<Rightarrow> string" where
  "path_name p = rev (takeWhile (\<lambda>c. c \<noteq> CHR ''/'') (rev p))"

definition rfind :: "string \<Rightarrow> char \<Rightarrow> int" where
  "rfind s c =
     (if c \<in> set s then int (length s) - 1 - int (length (takeWhile (\<lambda>x. x \<noteq> c) (rev s)))
      else - 1)"

definition suffix :: "path \<Rightarrow> string" where
  "suffix p =
     (let name = path_name p; i = rfind name CHR ''.''
      in if 0 < i \<and> i < int (length name) - 1 then drop (nat i) name else [])"

definition stem :: "path \<Rightarrow> string" where
  "stem p =
     (let name = path_name p; i = rfind name CHR ''.''
      in if 0 < i \<and> i < int (length name) - 1 then take (nat i) name else name)"

text \<open>\<open>str\<close> of an integer, as an f-string prints a status code or a count.\<close>

definition digit_char :: "nat \<Rightarrow> char" where
  "digit_char d = ''0123456789'' ! (d mod 10)"

fun str_nat :: "nat \<Rightarrow> string" where
  "str_nat n = (if n < 10 then [digit_char n] else str_nat (n div 10) @ [digit_char (n mod 10)])"

declare str_nat.simps [simp del]

definition str_int :: "int \<Rightarrow> string" where
  "str_int i = (if i < 0 then CHR ''-'' # str_nat (nat (- i)) else str_nat (nat i))"

text \<open>\<open>sub in s\<close> on strings.\<close>

fun is_prefix :: "string \<Rightarrow> string \<Rightarrow> bool" where
  "is_prefix [] s = True"
| "is_prefix (a # as) [] = False"
| "is_prefix (a # as) (b # bs) = (a = b \<and> is_prefix as bs)"

fun contains :: "string \<Rightarrow> string \<Rightarrow> bool" where
  "contains sub [] = (sub = [])"
| "contains sub (c # cs) = (is_prefix sub (c # cs) \<or> contains sub cs)"

text \<open>\<open>base64.b64encode\<close>: three bytes become four characters, the tail is padded with =.\<close>

definition b64_char :: "nat \<Rightarrow> char" where
  "b64_char n =
     ''ABCDEFGHIJKLMNOPQRSTUVWXYZabcdefghijklmnopqrstuvwxyz0123456789+/'' ! (n mod 64)"

fun b64encode :: "bytes \<Rightarrow> string" where
  "b64encode [] = []"
| "b64encode [a] =
     (let x = (of_char a :: nat)
      in [b64_char (x div 4), b64_char ((x mod 4) * 16), CHR ''='', CHR ''=''])"
| "b64encode [a, b] =
     (let x = (of_char a :: nat); y = (of_char b :: nat)
      in [b64_char (x div 4), b64_char ((x mod 4) * 16 + y div 16),
          b64_char ((y mod 16) * 4), CHR ''=''])"
| "b64encode (a # b # c # rest) =
     (let x = (of_char a :: nat); y = (of_char b :: nat); z = (of_char c :: nat)
      in [b64_char (x div 4), b64_char ((x mod 4) * 16 + y div 16),
          b64_char ((y mod 16) * 4 + z div 64), b64_char (z mod 64)] @ b64encode rest)"

text \<open>
  The format specification \<open>{emoji_name:30}\<close>: a string is left-aligned in a field of 30
  characters, filled with spaces on its right; a longer string is not cut.
\<close>

definition fmt30 :: "string \<Rightarrow> string" where
  "fmt30 s = s @ replicate (30 - length s) CHR '' ''"

text \<open>Truth value of an optional string: \<open>None\<close> and the empty string are false.\<close>

fun truthy :: "string option \<Rightarrow> bool" where
  "truthy None = False"
| "truthy (Some s) = (s \<noteq> [])"

text \<open>An f-string prints \<open>None\<close> as the word None.\<close>

fun fmt_opt :: "string option \<Rightarrow> string" where
  "fmt_opt None = ''None''"
| "fmt_opt (Some s) = s"

subsection \<open>Data\<close>

text \<open>
  An emoji object of the API as JSON: a key that is absent is \<open>None\<close>. A response body is
  a listing \<open>{items: [...]}\<close> or one emoji object.
\<close>

record emoji_obj =
  obj_name :: "string option"
  obj_id :: "string option"
  obj_animated :: "bool option"

datatype json_value = JItems "emoji_obj list" | JEmoji emoji_obj

text \<open>A response of \<open>requests\<close>; \<open>json\<close> is \<open>None\<close> when the body does not decode.\<close>

record response =
  status_code :: int
  resp_text :: string
  json :: "json_value option"

datatype request =
    GET string string
  | POST string string string string
  | DELETE string string

text \<open>
  \<open>GET url authorization\<close>, \<open>POST url authorization name image\<close> (the JSON payload has the
  keys name and image) and \<open>DELETE url authorization\<close>.
\<close>

datatype event =
    Request request
  | Sleep rat
  | Call_upload_emoji path string
  | Call_delete_emoji string string
  | Mkdir path
  | Write_file path string

text \<open>
  The log has one \<open>Request\<close> for each HTTP request that was answered, one \<open>Sleep\<close> for each
  \<open>time.sleep\<close>, one \<open>Call_upload_emoji\<close> and \<open>Call_delete_emoji\<close> for each invocation of
  these two functions with its arguments, and the two writes to the file system. \<open>tmp\<close>
  holds the scratch files made by \<open>tempfile\<close> that still exist, with their content.
\<close>

record world =
  calls :: "event list"
  tmp :: "(string \<times> bytes) list"

datatype exn =
  RequestException | JSONDecodeError | KeyError | TypeError | OSError | ZoneInfoNotFoundError

text \<open>The values of the two dictionaries.\<close>

record remote_entry =
  info_id :: string
  info_animated :: bool

record local_entry =
  path :: path
  relative_path :: string

type_synonym remote_dict = "(string \<times> remote_entry) list"
type_synonym local_dict = "(string \<times> local_entry) list"

text \<open>
  A dictionary is an association list in insertion order: \<open>AList.update\<close> overwrites a key
  in place or appends a new one, \<open>AList.delete\<close> is \<open>del\<close>, \<open>map_of\<close> is the lookup.
\<close>

definition keys :: "('k \<times> 'v) list \<Rightarrow> 'k list" where
  "keys d = map fst d"

text \<open>What \<open>rglob\<close> yields for one entry below the folder.\<close>

record dir_entry =
  entry_path :: path
  entry_relative :: string
  entry_is_file :: bool

text \<open>
  The configuration read at import time, and the outside. \<open>http\<close> answers a request, given
  the log so far (\<open>None\<close>: \<open>requests\<close> raises); \<open>read_file\<close> is \<open>open(...).read()\<close>
  (\<open>None\<close>: it raises); \<open>mktemp\<close> is the name \<open>NamedTemporaryFile\<close> creates; \<open>svg2png\<close> is
  the rendered image (\<open>None\<close>: cairosvg raises); \<open>unlink_ok\<close> tells whether \<open>os.unlink\<close>
  succeeds; \<open>folder_exists\<close> tells whether the emoji folder is there when \<open>main\<close>
  begins and \<open>mkdir_ok\<close> whether \<open>mkdir\<close> can make it; \<open>rglob\<close> lists the entries below a
  folder in the order of the walk; \<open>set_rank\<close> ranks the names of a set in the order
  Python walks it; \<open>report_writable\<close> tells whether the report file can be opened and
  written (if not, \<open>open\<close> raises); \<open>now\<close> is the formatted time of the run in the zone
  America/New_York (\<open>None\<close>: \<open>ZoneInfo\<close> does not find the zone and raises).
\<close>

record env =
  BOT_TOKEN :: "string option"
  APPLICATION_ID :: "string option"
  EMOJI_FOLDER :: string
  EMOJI_CODES_FILE :: string
  SVG_SUPPORT :: bool
  http :: "event list \<Rightarrow> request \<Rightarrow> response option"
  folder_exists :: bool
  mkdir_ok :: bool
  rglob :: "path \<Rightarrow> dir_entry list"
  read_file :: "path \<Rightarrow> bytes option"
  mktemp :: "event list \<Rightarrow> string option"
  svg2png :: "path \<Rightarrow> bytes option"
  unlink_ok :: "string \<Rightarrow> bool"
  set_rank :: "string \<Rightarrow> nat"
  report_writable :: bool
  now :: "string option"

definition SUPPORTED_FORMATS :: "string list" where
  "SUPPORTED_FORMATS = [''.png'', ''.jpg'', ''.jpeg'', ''.gif'', ''.webp'', ''.svg'']"

definition record_event :: "event \<Rightarrow> world \<Rightarrow> world" where
  "record_event ev w = w\<lparr>calls := calls w @ [ev]\<rparr>"

subsection \<open>The scanner\<close>

fun scan_entries :: "dir_entry list \<Rightarrow> local_dict \<Rightarrow> local_dict" where
  "scan_entries [] emoji_files = emoji_files"
| "scan_entries (d # ds) emoji_files =
     (let file_path = entry_path d
      in if entry_is_file d \<and> lower (suffix file_path) \<in> set SUPPORTED_FORMATS
         then scan_entries ds
                (AList.update (stem file_path)
                   \<lparr>path = file_path, relative_path = entry_relative d\<rparr> emoji_files)
         else scan_entries ds emoji_files)"

definition find_all_emoji_files :: "env \<Rightarrow> path \<Rightarrow> local_dict" where
  "find_all_emoji_files e emoji_folder = scan_entries (rglob e emoji_folder) []"

subsection \<open>The client\<close>

definition emojis_url :: "env \<Rightarrow> string" where
  "emojis_url e =
     ''https://discord.com/api/v10/applications/'' @ fmt_opt (APPLICATION_ID e) @ ''/emojis''"

definition authorization :: "env \<Rightarrow> string" where
  "authorization e = ''Bot '' @ fmt_opt (BOT_TOKEN e)"

text \<open>The loop of \<open>get_existing_emojis\<close> over the items of the listing.\<close>

fun collect_items :: "emoji_obj list \<Rightarrow> remote_dict \<Rightarrow> exn + remote_dict" where
  "collect_items [] emojis = Inr emojis"
| "collect_items (emoji # items) emojis =
     (case obj_id emoji of
        None \<Rightarrow> Inl KeyError
      | Some i \<Rightarrow>
          (case obj_name emoji of
             None \<Rightarrow> Inl KeyError
           | Some n \<Rightarrow>
               collect_items items
                 (AList.update n
                    \<lparr>info_id = i,
                     info_animated = (case obj_animated emoji of None \<Rightarrow> False | Some a \<Rightarrow> a)\<rparr>
                    emojis)))"

definition get_existing_emojis :: "env \<Rightarrow> world \<Rightarrow> exn + (remote_dict \<times> world)" where
  "get_existing_emojis e w =
     (let req = GET (emojis_url e) (authorization e)
      in case http e (calls w) req of
           None \<Rightarrow> Inl RequestException
         | Some response \<Rightarrow>
             let w' = record_event (Request req) w
             in if status_code response = 200
                then (case json response of
                        None \<Rightarrow> Inl JSONDecodeError
                      | Some (JEmoji obj) \<Rightarrow> Inl KeyError
                      | Some (JItems items) \<Rightarrow>
                          (case collect_items items [] of
                             Inl x \<Rightarrow> Inl x
                           | Inr emojis \<Rightarrow> Inr (emojis, w')))
                else Inr ([], w'))"

definition delete_emoji ::
  "env \<Rightarrow> string \<Rightarrow> string \<Rightarrow> world \<Rightarrow> exn + ((bool \<times> string) \<times> world)" where
  "delete_emoji e emoji_id emoji_name w0 =
     (let w = record_event (Call_delete_emoji emoji_id emoji_name) w0;
          req = DELETE (emojis_url e @ ''/'' @ emoji_id) (authorization e)
      in case http e (calls w) req of
           None \<Rightarrow> Inl RequestException
         | Some response \<Rightarrow>
             let w' = record_event (Request req) w
             in if status_code response = 204 then Inr ((True, ''Success''), w')
                else Inr ((False, str_int (status_code response) @ '' - '' @ resp_text response),
                          w'))"

text \<open>
  \<open>convert_svg_to_png\<close>: the scratch file exists as soon as \<open>NamedTemporaryFile\<close> has
  returned; an exception of the renderer is caught and \<open>None\<close> is returned.
\<close>

definition convert_svg_to_png :: "env \<Rightarrow> path \<Rightarrow> world \<Rightarrow> string option \<times> world" where
  "convert_svg_to_png e svg_path w =
     (if \<not> SVG_SUPPORT e then (None, w)
      else case mktemp e (calls w) of
             None \<Rightarrow> (None, w)
           | Some temp_png \<Rightarrow>
               let w1 = w\<lparr>tmp := AList.update temp_png [] (tmp w)\<rparr>
               in (case svg2png e svg_path of
                     None \<Rightarrow> (None, w1)
                   | Some png \<Rightarrow> (Some temp_png, w1\<lparr>tmp := AList.update temp_png png (tmp w1)\<rparr>)))"

text \<open>The chain of tests on the extension; \<open>None\<close> is its last \<open>else\<close>.\<close>

definition image_type_of :: "string \<Rightarrow> string option" where
  "image_type_of file_ext =
     (if file_ext = ''.png'' then Some ''image/png''
      else if file_ext \<in> set [''.jpg'', ''.jpeg''] then Some ''image/jpeg''
      else if file_ext = ''.gif'' then Some ''image/gif''
      else if file_ext = ''.webp'' then Some ''image/webp''
      else None)"

text \<open>
  The first block of \<open>upload_emoji\<close>: \<open>Inl\<close> is one of its two early returns, \<open>Inr\<close> carries
  \<open>file_path\<close>, \<open>file_ext\<close> and \<open>temp_png_path\<close> as the rest of the function sees them.
\<close>

definition prepare_svg ::
  "env \<Rightarrow> path \<Rightarrow> world \<Rightarrow>
   ((bool \<times> string \<times> json_value option) \<times> world) + (path \<times> string \<times> string option \<times> world)" where
  "prepare_svg e file_path w =
     (let file_ext = lower (suffix file_path)
      in if file_ext = ''.svg'' then
           (if \<not> SVG_SUPPORT e
            then Inl ((False, ''SVG support not available (cairosvg not installed)'', None), w)
            else case convert_svg_to_png e file_path w of
                   (temp_png_path, w1) \<Rightarrow>
                     if \<not> truthy temp_png_path
                     then Inl ((False, ''Failed to convert SVG to PNG'', None), w1)
                     else Inr (fmt_opt temp_png_path, ''.png'', temp_png_path, w1))
         else Inr (file_path, file_ext, None, w))"

definition upload_emoji ::
  "env \<Rightarrow> path \<Rightarrow> string \<Rightarrow> world \<Rightarrow> exn + ((bool \<times> string \<times> json_value option) \<times> world)" where
  "upload_emoji e file_path0 emoji_name w0 =
     (let w = record_event (Call_upload_emoji file_path0 emoji_name) w0
      in case prepare_svg e file_path0 w of
           Inl early \<Rightarrow> Inr early
         | Inr (file_path, file_ext, temp_png_path, w1) \<Rightarrow>
             (case (if truthy temp_png_path then map_of (tmp w1) file_path
                    else read_file e file_path) of
                None \<Rightarrow> Inl OSError
              | Some image_data \<Rightarrow>
                  let w2 = (if truthy temp_png_path \<and> unlink_ok e (fmt_opt temp_png_path)
                            then w1\<lparr>tmp := AList.delete (fmt_opt temp_png_path) (tmp w1)\<rparr>
                            else w1)
                  in (case image_type_of file_ext of
                        None \<Rightarrow> Inr ((False, ''Unsupported format'', None), w2)
                      | Some image_type \<Rightarrow>
                          let image_base64 = b64encode image_data;
                              data_uri = ''data:'' @ image_type @ '';base64,'' @ image_base64;
                              req = POST (emojis_url e) (authorization e) emoji_name data_uri
                          in (case http e (calls w2) req of
                                None \<Rightarrow> Inl RequestException
                              | Some response \<Rightarrow>
                                  let w3 = record_event (Request req) w2
                                  in if status_code response = 201
                                     then (case json response of
                                             None \<Rightarrow> Inl JSONDecodeError
                                           | Some emoji_data \<Rightarrow>
                                               Inr ((True, ''Success'', Some emoji_data), w3))
                                     else Inr ((False,
                                                str_int (status_code response) @ '' - ''
                                                  @ resp_text response,
                                                None), w3)))))"

subsection \<open>The report\<close>

definition format_emoji_code :: "string \<Rightarrow> string \<Rightarrow> bool \<Rightarrow> string" where
  "format_emoji_code emoji_name emoji_id animated =
     (let prefix = (if animated then ''a'' else '''')
      in ''<'' @ prefix @ '':'' @ emoji_name @ '':'' @ emoji_id @ ''>'')"

text \<open>
  The loop of \<open>write_emoji_codes\<close>: \<open>f\<close> is the list of the strings written so far, one for
  each \<open>f.write\<close>. A name without an entry raises \<open>KeyError\<close>. The function itself raises
  when the file cannot be opened for writing and when the time zone is not found; the
  \<open>Write_file\<close> of the log is the file as it stands when the function returns.
\<close>

fun write_entries :: "remote_dict \<Rightarrow> string list \<Rightarrow> string list \<Rightarrow> exn + string list" where
  "write_entries emojis_dict [] f = Inr f"
| "write_entries emojis_dict (emoji_name # names) f =
     (case map_of emojis_dict emoji_name of
        None \<Rightarrow> Inl KeyError
      | Some emoji_info \<Rightarrow>
          let emoji_code = format_emoji_code emoji_name (info_id emoji_info) (info_animated emoji_info)
          in write_entries emojis_dict names
               (f @ [fmt30 emoji_name @ '' '' @ emoji_code @ ''\<newline>'']))"

definition write_emoji_codes ::
  "env \<Rightarrow> remote_dict \<Rightarrow> local_dict \<Rightarrow> world \<Rightarrow> exn + (string list \<times> world)" where
  "write_emoji_codes e emojis_dict local_files w =
     (if \<not> report_writable e then Inl OSError
      else
        let f = [''Discord Application Emoji Codes\<newline>'',
                 ''Total emojis: '' @ str_nat (length emojis_dict) @ ''\<newline>'',
                 replicate 60 CHR ''='' @ ''\<newline>\<newline>'']
        in case write_entries emojis_dict (sort (keys emojis_dict)) f of
             Inl x \<Rightarrow> Inl x
           | Inr f' \<Rightarrow>
               (case now e of
                  None \<Rightarrow> Inl ZoneInfoNotFoundError
                | Some ny_time \<Rightarrow>
                    let f'' = f' @ [''\<newline>Last updated on: '' @ ny_time @ ''\<newline>'']
                    in Inr (f'', record_event (Write_file (EMOJI_CODES_FILE e) (concat f'')) w)))"

text \<open>The string that the loop writes for one name and its entry.\<close>

abbreviation report_line :: "string \<Rightarrow> remote_entry \<Rightarrow> string" where
  "report_line n info \<equiv>
     fmt30 n @ '' '' @ format_emoji_code n (info_id info) (info_animated info) @ ''\<newline>''"

subsection \<open>The two passes of main\<close>

record run_state =
  outside :: world
  existing_emojis :: remote_dict
  uploaded_count :: nat
  updated_count :: nat
  deleted_count :: nat
  skipped_count :: nat
  error_count :: nat

text \<open>What follows a failed upload or deletion: the count, and the pause on 429.\<close>

definition record_failure :: "string \<Rightarrow> world \<Rightarrow> run_state \<Rightarrow> run_state" where
  "record_failure message w st =
     st\<lparr>outside := (if contains ''429'' message then record_event (Sleep 5) w else w),
        error_count := error_count st + 1\<rparr>"

text \<open>The body of the loop over \<open>local_files.items()\<close>.\<close>

definition process_local :: "env \<Rightarrow> string \<times> local_entry \<Rightarrow> run_state \<Rightarrow> exn + run_state" where
  "process_local e item st =
     (let emoji_name = fst item; file_info = snd item; file_path = path file_info
      in if emoji_name \<in> set (keys (existing_emojis st))
         then Inr (st\<lparr>skipped_count := skipped_count st + 1\<rparr>)
         else case upload_emoji e file_path emoji_name (outside st) of
                Inl x \<Rightarrow> Inl x
              | Inr ((success, message, emoji_data), w) \<Rightarrow>
                  if success then
                    (case emoji_data of
                       None \<Rightarrow> Inl TypeError
                     | Some (JItems items) \<Rightarrow> Inl KeyError
                     | Some (JEmoji obj) \<Rightarrow>
                         (case obj_id obj of
                            None \<Rightarrow> Inl KeyError
                          | Some i \<Rightarrow>
                              Inr (st\<lparr>outside := record_event (Sleep (3 / 2)) w,
                                      existing_emojis :=
                                        AList.update emoji_name
                                          \<lparr>info_id = i,
                                           info_animated =
                                             (case obj_animated obj of None \<Rightarrow> False | Some a \<Rightarrow> a)\<rparr>
                                          (existing_emojis st),
                                      uploaded_count := uploaded_count st + 1\<rparr>)))
                  else Inr (record_failure message w st))"

fun upload_pass :: "env \<Rightarrow> local_dict \<Rightarrow> run_state \<Rightarrow> exn + run_state" where
  "upload_pass e [] st = Inr st"
| "upload_pass e (item # items) st =
     (case process_local e item st of
        Inl x \<Rightarrow> Inl x
      | Inr st' \<Rightarrow> upload_pass e items st')"

text \<open>
  \<open>set(existing_emojis.keys()) - set(local_files.keys())\<close>, in the order in which the loop
  walks the set: Python fixes no order, so the names are taken by the rank the
  environment gives them, which can produce every order.
\<close>

definition emojis_to_delete :: "env \<Rightarrow> remote_dict \<Rightarrow> local_dict \<Rightarrow> string list" where
  "emojis_to_delete e existing local_files =
     sort_key (set_rank e)
       (remdups (filter (\<lambda>n. n \<notin> set (keys local_files)) (keys existing)))"

text \<open>The body of the loop over \<open>emojis_to_delete\<close>.\<close>

definition process_delete :: "env \<Rightarrow> string \<Rightarrow> run_state \<Rightarrow> exn + run_state" where
  "process_delete e emoji_name st =
     (case map_of (existing_emojis st) emoji_name of
        None \<Rightarrow> Inl KeyError
      | Some emoji_info \<Rightarrow>
          (case delete_emoji e (info_id emoji_info) emoji_name (outside st) of
             Inl x \<Rightarrow> Inl x
           | Inr ((success, message), w) \<Rightarrow>
               if success
               then Inr (st\<lparr>outside := record_event (Sleep (3 / 2)) w,
                            existing_emojis := AList.delete emoji_name (existing_emojis st),
                            deleted_count := deleted_count st + 1\<rparr>)
               else Inr (record_failure message w st)))"

fun delete_pass :: "env \<Rightarrow> string list \<Rightarrow> run_state \<Rightarrow> exn + run_state" where
  "delete_pass e [] st = Inr st"
| "delete_pass e (emoji_name # names) st =
     (case process_delete e emoji_name st of
        Inl x \<Rightarrow> Inl x
      | Inr st' \<Rightarrow> delete_pass e names st')"

text \<open>Both passes: what \<open>main\<close> does between the scan and the report.\<close>

definition reconcile :: "env \<Rightarrow> local_dict \<Rightarrow> run_state \<Rightarrow> exn + run_state" where
  "reconcile e local_files st =
     (case upload_pass e local_files st of
        Inl x \<Rightarrow> Inl x
      | Inr st1 \<Rightarrow> delete_pass e (emojis_to_delete e (existing_emojis st1) local_files) st1)"

definition start :: "remote_dict \<Rightarrow> world \<Rightarrow> run_state" where
  "start existing w =
     \<lparr>outside = w, existing_emojis = existing, uploaded_count = 0, updated_count = 0,
      deleted_count = 0, skipped_count = 0, error_count = 0\<rparr>"

text \<open>
  The outcome of the process: its exit code, the world it leaves, and the state of the
  run (\<open>None\<close> when it exits before the run begins).
\<close>

record outcome =
  exit_code :: int
  final_world :: world
  final_run :: "run_state option"

definition main :: "env \<Rightarrow> exn + outcome" where
  "main e =
     (let w0 = \<lparr>calls = [], tmp = []\<rparr>
      in if \<not> truthy (BOT_TOKEN e) \<or> \<not> truthy (APPLICATION_ID e)
         then Inr \<lparr>exit_code = 1, final_world = w0, final_run = None\<rparr>
         else if \<not> folder_exists e \<and> \<not> mkdir_ok e then Inl OSError
         else
           let w1 = (if \<not> folder_exists e then record_event (Mkdir (EMOJI_FOLDER e)) w0 else w0)
           in case get_existing_emojis e w1 of
                Inl x \<Rightarrow> Inl x
              | Inr (existing, w2) \<Rightarrow>
                  let local_files = find_all_emoji_files e (EMOJI_FOLDER e)
                  in (case reconcile e local_files (start existing w2) of
                        Inl x \<Rightarrow> Inl x
                      | Inr st \<Rightarrow>
                          (case write_emoji_codes e (existing_emojis st) local_files (outside st) of
                             Inl x \<Rightarrow> Inl x
                           | Inr (f, w3) \<Rightarrow>
                               Inr \<lparr>exit_code = (if error_count st > 0 then 1 else 0),
                                    final_world = w3,
                                    final_run = Some (st\<lparr>outside := w3\<rparr>)\<rparr>)))"

text \<open>
  The status with which the process ends: the code of \<open>sys.exit\<close>, 0 when \<open>main\<close> returns,
  and 1 when an exception leaves \<open>main\<close>, which nothing catches: the interpreter prints
  the traceback and exits with 1.
\<close>

definition exit_status :: "env \<Rightarrow> int" where
  "exit_status e = (case main e of Inl x \<Rightarrow> 1 | Inr out \<Rightarrow> exit_code out)"

subsection \<open>Counting the calls of a run\<close>

text \<open>
  The invocations of \<open>upload_emoji\<close> and of \<open>delete_emoji\<close> for one emoji name, and the
  POST requests that carry the name, in a log.
\<close>

fun is_upload_of :: "string \<Rightarrow> event \<Rightarrow> bool" where
  "is_upload_of n (Call_upload_emoji p m) = (m = n)"
| "is_upload_of n ev = False"

fun is_delete_of :: "string \<Rightarrow> event \<Rightarrow> bool" where
  "is_delete_of n (Call_delete_emoji i m) = (m = n)"
| "is_delete_of n ev = False"

fun is_post_of :: "string \<Rightarrow> event \<Rightarrow> bool" where
  "is_post_of n (Request (POST url auth m img)) = (m = n)"
| "is_post_of n ev = False"

text \<open>The events of a deletion: the call of \<open>delete_emoji\<close> and the DELETE request.\<close>

fun is_delete_event :: "event \<Rightarrow> bool" where
  "is_delete_event (Call_delete_emoji i n) = True"
| "is_delete_event (Request (DELETE url auth)) = True"
| "is_delete_event ev = False"

text \<open>
  The POST requests of a log, and the lists of events that are all Create requests of
  the application for names of a given set.
\<close>

fun is_post_event :: "event \<Rightarrow> bool" where
  "is_post_event (Request (POST url auth n img)) = True"
| "is_post_event ev = False"

fun is_create_request :: "env \<Rightarrow> string set \<Rightarrow> event \<Rightarrow> bool" where
  "is_create_request e names (Request (POST url auth n img)) =
     (url = emojis_url e \<and> auth = authorization e \<and> n \<in> names)"
| "is_create_request e names ev = False"

definition create_requests :: "env \<Rightarrow> string set \<Rightarrow> event list \<Rightarrow> bool" where
  "create_requests e names evs = list_all (is_create_request e names) evs"

text \<open>
  The events of the deletion of one name from an inventory: the call with the id that
  the inventory has for the name, and the DELETE request for this id.
\<close>

definition delete_events :: "env \<Rightarrow> remote_dict \<Rightarrow> string \<Rightarrow> event list" where
  "delete_events e existing emoji_name =
     (case map_of existing emoji_name of
        None \<Rightarrow> []
      | Some emoji_info \<Rightarrow>
          [Call_delete_emoji (info_id emoji_info) emoji_name,
           Request (DELETE (emojis_url e @ ''/'' @ info_id emoji_info) (authorization e))])"

definition uploads_of :: "string \<Rightarrow> event list \<Rightarrow> nat" where
  "uploads_of n tr = length (filter (is_upload_of n) tr)"

definition deletes_of :: "string \<Rightarrow> event list \<Rightarrow> nat" where
  "deletes_of n tr = length (filter (is_delete_of n) tr)"

definition posts_of :: "string \<Rightarrow> event list \<Rightarrow> nat" where
  "posts_of n tr = length (filter (is_post_of n) tr)"

subsection \<open>Well-formed listings\<close>

text \<open>
  The item of a listing with a name, an id and maybe the animated flag, and the entry
  that the dictionary holds for it.
\<close>

definition listed :: "string \<times> string \<times> bool option \<Rightarrow> emoji_obj" where
  "listed t = (case t of (n, i, a) \<Rightarrow> \<lparr>obj_name = Some n, obj_id = Some i, obj_animated = a\<rparr>)"

definition stored :: "string \<times> string \<times> bool option \<Rightarrow> string \<times> remote_entry" where
  "stored t = (case t of (n, i, a) \<Rightarrow> (n, \<lparr>info_id = i, info_animated = (a = Some True)\<rparr>))"

subsection \<open>An example environment\<close>

text \<open>
  A server that lists one emoji \<open>old\<close> with the id 123, creates every emoji it is sent and
  deletes every emoji; a folder with two images, a directory and a text file.
\<close>

definition example_http :: "event list \<Rightarrow> request \<Rightarrow> response option" where
  "example_http tr req =
     (case req of
        GET url auth \<Rightarrow>
          Some \<lparr>status_code = 200, resp_text = [],
                json = Some (JItems [\<lparr>obj_name = Some ''old'', obj_id = Some ''123'',
                                      obj_animated = None\<rparr>])\<rparr>
      | POST url auth name img \<Rightarrow>
          Some \<lparr>status_code = 201, resp_text = [],
                json = Some (JEmoji \<lparr>obj_name = Some name, obj_id = Some (''9'' @ name),
                                    obj_animated = Some (is_prefix ''data:image/gif'' img)\<rparr>)\<rparr>
      | DELETE url auth \<Rightarrow> Some \<lparr>status_code = 204, resp_text = [], json = None\<rparr>)"

definition example_env :: env where
  "example_env =
     \<lparr>BOT_TOKEN = Some ''token'', APPLICATION_ID = Some ''42'', EMOJI_FOLDER = ''emojis'',
      EMOJI_CODES_FILE = ''emojis.txt'', SVG_SUPPORT = True, http = example_http,
      folder_exists = True, mkdir_ok = True,
      rglob = (\<lambda>folder. [\<lparr>entry_path = ''emojis/smile.png'', entry_relative = ''smile.png'',
                entry_is_file = True\<rparr>,
               \<lparr>entry_path = ''emojis/sub'', entry_relative = ''sub'', entry_is_file = False\<rparr>,
               \<lparr>entry_path = ''emojis/sub/wave.GIF'', entry_relative = ''sub/wave.GIF'',
                entry_is_file = True\<rparr>,
               \<lparr>entry_path = ''emojis/notes.txt'', entry_relative = ''notes.txt'',
                entry_is_file = True\<rparr>]),
      read_file = (\<lambda>p. Some ''abc''), mktemp = (\<lambda>tr. Some ''/tmp/tmp1.png''),
      svg2png = (\<lambda>p. Some ''png''), unlink_ok = (\<lambda>t. True), set_rank = length,
      report_writable = True, now = Some ''2025-01-01 00:00:00 EST''\<rparr>"

text \<open>A local and a remote inventory that share the name \<open>smile\<close>.\<close>

definition example_local :: local_dict where
  "example_local =
     [(''smile'', \<lparr>path = ''emojis/smile.png'', relative_path = ''smile.png''\<rparr>),
      (''wave'', \<lparr>path = ''emojis/sub/wave.GIF'', relative_path = ''sub/wave.GIF''\<rparr>)]"

definition example_remote :: remote_dict where
  "example_remote =
     [(''old'', \<lparr>info_id = ''123'', info_animated = False\<rparr>),
      (''smile'', \<lparr>info_id = ''77'', info_animated = False\<rparr>)]"

text \<open>A network that is down: every request raises.\<close>

definition no_network_http :: "event list \<Rightarrow> request \<Rightarrow> response option" where
  "no_network_http tr req = None"

text \<open>A server that answers every request with the status 429.\<close>

definition rate_limited_http :: "event list \<Rightarrow> request \<Rightarrow> response option" where
  "rate_limited_http tr req =
     Some \<lparr>status_code = 429, resp_text = ''slow down'', json = None\<rparr>"

section \<open>Properties\<close>

subsection \<open>The log of one call\<close>

lemma convert_svg_calls: "convert_svg_to_png e p w = (t, w') \<Longrightarrow> calls w' = calls w"
  by (auto simp: convert_svg_to_png_def Let_def split: if_splits option.splits)

lemma prepare_svg_calls_Inl: "prepare_svg e p w = Inl (r, w') \<Longrightarrow> calls w' = calls w"
  by (auto simp: prepare_svg_def Let_def split: if_splits prod.splits dest: convert_svg_calls)

lemma prepare_svg_calls_Inr: "prepare_svg e p w = Inr (fp, ext, t, w') \<Longrightarrow> calls w' = calls w"
  by (auto simp: prepare_svg_def Let_def split: if_splits prod.splits dest: convert_svg_calls)

lemma upload_emoji_calls:
  assumes "upload_emoji e p n w = Inr (r, w')"
  shows "calls w' = calls w @ [Call_upload_emoji p n]
       \<or> (\<exists>url auth img. calls w' = calls w @ [Call_upload_emoji p n, Request (POST url auth n img)])"
proof (cases "prepare_svg e p (record_event (Call_upload_emoji p n) w)")
  case (Inl early)
  obtain r0 w0 where "early = (r0, w0)" by (cases early) auto
  with assms Inl show ?thesis
    by (auto simp: upload_emoji_def Let_def record_event_def dest!: prepare_svg_calls_Inl)
next
  case (Inr q)
  obtain fp ext t w1 where q: "q = (fp, ext, t, w1)" by (cases q) auto
  from Inr q have c: "calls w1 = calls w @ [Call_upload_emoji p n]"
    by (auto simp: record_event_def dest!: prepare_svg_calls_Inr)
  from assms Inr q c show ?thesis
    by (auto simp: upload_emoji_def Let_def record_event_def split: option.splits if_splits)
qed

lemma upload_emoji_counts:
  assumes "upload_emoji e p n w = Inr (r, w')"
  shows "uploads_of m (calls w') = uploads_of m (calls w) + (if m = n then 1 else 0)"
    and "deletes_of m (calls w') = deletes_of m (calls w)"
    and "posts_of m (calls w) \<le> posts_of m (calls w')
       \<and> posts_of m (calls w') \<le> posts_of m (calls w) + (if m = n then 1 else 0)"
  using upload_emoji_calls[OF assms]
  by (auto simp: uploads_of_def deletes_of_def posts_of_def)

lemma delete_emoji_calls:
  assumes "delete_emoji e i n w = Inr (r, w')"
  shows "\<exists>url auth. calls w' = calls w @ [Call_delete_emoji i n, Request (DELETE url auth)]"
  using assms
  by (auto simp: delete_emoji_def Let_def record_event_def split: option.splits if_splits)

lemma delete_emoji_counts:
  assumes "delete_emoji e i n w = Inr (r, w')"
  shows "uploads_of m (calls w') = uploads_of m (calls w)"
    and "deletes_of m (calls w') = deletes_of m (calls w) + (if m = n then 1 else 0)"
    and "posts_of m (calls w') = posts_of m (calls w)"
  using delete_emoji_calls[OF assms]
  by (auto simp: uploads_of_def deletes_of_def posts_of_def)

lemma record_failure_counts:
  "uploads_of m (calls (outside (record_failure msg w st))) = uploads_of m (calls w)"
  "deletes_of m (calls (outside (record_failure msg w st))) = deletes_of m (calls w)"
  "posts_of m (calls (outside (record_failure msg w st))) = posts_of m (calls w)"
  by (auto simp: record_failure_def record_event_def uploads_of_def deletes_of_def posts_of_def)

lemma record_failure_fields:
  "existing_emojis (record_failure msg w st) = existing_emojis st"
  "skipped_count (record_failure msg w st) = skipped_count st"
  "uploaded_count (record_failure msg w st) = uploaded_count st"
  "deleted_count (record_failure msg w st) = deleted_count st"
  "updated_count (record_failure msg w st) = updated_count st"
  "error_count (record_failure msg w st) = error_count st + 1"
  by (auto simp: record_failure_def)

text \<open>One step of the first pass.\<close>

lemma process_local_skip:
  "n \<in> set (keys (existing_emojis st)) \<Longrightarrow>
   process_local e (n, fi) st = Inr (st\<lparr>skipped_count := skipped_count st + 1\<rparr>)"
  by (simp add: process_local_def)

lemma process_local_new:
  assumes "n \<notin> set (keys (existing_emojis st))"
    and "process_local e (n, fi) st = Inr st'"
  shows "uploads_of m (calls (outside st')) = uploads_of m (calls (outside st)) + (if m = n then 1 else 0)"
    and "deletes_of m (calls (outside st')) = deletes_of m (calls (outside st))"
    and "posts_of m (calls (outside st)) \<le> posts_of m (calls (outside st'))
       \<and> posts_of m (calls (outside st')) \<le> posts_of m (calls (outside st)) + (if m = n then 1 else 0)"
    and "skipped_count st' = skipped_count st"
    and "deleted_count st' = deleted_count st"
    and "error_count st \<le> error_count st'"
    and "(\<exists>v. existing_emojis st' = AList.update n v (existing_emojis st)
              \<and> error_count st' = error_count st \<and> uploaded_count st' = uploaded_count st + 1)
         \<or> (existing_emojis st' = existing_emojis st \<and> error_count st' = error_count st + 1
              \<and> uploaded_count st' = uploaded_count st)"
proof -
  from assms obtain success message emoji_data w where
    up: "upload_emoji e (path fi) n (outside st) = Inr ((success, message, emoji_data), w)"
    by (auto simp: process_local_def Let_def split: sum.splits)
  note c = upload_emoji_counts[OF up]
  have sl: "\<And>d. uploads_of m (calls (record_event (Sleep d) w)) = uploads_of m (calls w)"
    "\<And>d. deletes_of m (calls (record_event (Sleep d) w)) = deletes_of m (calls w)"
    "\<And>d. posts_of m (calls (record_event (Sleep d) w)) = posts_of m (calls w)"
    by (auto simp: record_event_def uploads_of_def deletes_of_def posts_of_def)
  from assms up have st': "(success \<and> (\<exists>v. st' = st\<lparr>outside := record_event (Sleep (3 / 2)) w,
        existing_emojis := AList.update n v (existing_emojis st),
        uploaded_count := uploaded_count st + 1\<rparr>))
      \<or> (\<not> success \<and> st' = record_failure message w st)"
    by (auto simp: process_local_def Let_def split: option.splits json_value.splits if_splits)
  show "uploads_of m (calls (outside st')) = uploads_of m (calls (outside st)) + (if m = n then 1 else 0)"
    using st' c(1)[of m] sl by (auto simp: record_failure_counts)
  show "deletes_of m (calls (outside st')) = deletes_of m (calls (outside st))"
    using st' c(2)[of m] sl by (auto simp: record_failure_counts)
  show "posts_of m (calls (outside st)) \<le> posts_of m (calls (outside st'))
       \<and> posts_of m (calls (outside st')) \<le> posts_of m (calls (outside st)) + (if m = n then 1 else 0)"
    using st' c(3)[of m] sl by (auto simp: record_failure_counts)
  show "skipped_count st' = skipped_count st" using st' by (auto simp: record_failure_fields)
  show "deleted_count st' = deleted_count st" using st' by (auto simp: record_failure_fields)
  show "error_count st \<le> error_count st'" using st' by (auto simp: record_failure_fields)
  show "(\<exists>v. existing_emojis st' = AList.update n v (existing_emojis st)
              \<and> error_count st' = error_count st \<and> uploaded_count st' = uploaded_count st + 1)
         \<or> (existing_emojis st' = existing_emojis st \<and> error_count st' = error_count st + 1
              \<and> uploaded_count st' = uploaded_count st)"
    using st' by (auto simp: record_failure_fields)
qed

subsection \<open>One step of the first pass\<close>

lemma keys_update_new:
  "n \<notin> set (keys d) \<Longrightarrow> keys (AList.update n v d) = keys d @ [n]"
  by (simp add: keys_def update_keys)

lemma process_local_step:
  assumes "process_local e (n, fi) st = Inr st1"
  shows "uploads_of m (calls (outside st1)) = uploads_of m (calls (outside st))
           + (if m = n \<and> n \<notin> set (keys (existing_emojis st)) then 1 else 0)"
    and "deletes_of m (calls (outside st1)) = deletes_of m (calls (outside st))"
    and "posts_of m (calls (outside st)) \<le> posts_of m (calls (outside st1))
       \<and> posts_of m (calls (outside st1)) \<le> posts_of m (calls (outside st))
           + (if m = n \<and> n \<notin> set (keys (existing_emojis st)) then 1 else 0)"
    and "skipped_count st1 = skipped_count st
           + (if n \<in> set (keys (existing_emojis st)) then 1 else 0)"
    and "set (keys (existing_emojis st)) \<subseteq> set (keys (existing_emojis st1))"
    and "set (keys (existing_emojis st1)) \<subseteq> insert n (set (keys (existing_emojis st)))"
    and "m \<in> set (keys (existing_emojis st)) \<Longrightarrow>
           map_of (existing_emojis st1) m = map_of (existing_emojis st) m"
    and "error_count st \<le> error_count st1"
    and "error_count st1 = error_count st \<Longrightarrow> n \<in> set (keys (existing_emojis st1))"
    and "distinct (keys (existing_emojis st)) \<Longrightarrow> distinct (keys (existing_emojis st1))"
    and "deleted_count st1 = deleted_count st"
proof -
  let ?K = "set (keys (existing_emojis st))"
  have all: "(n \<in> ?K \<and> st1 = st\<lparr>skipped_count := skipped_count st + 1\<rparr>) \<or>
    (n \<notin> ?K \<and>
      uploads_of m (calls (outside st1)) = uploads_of m (calls (outside st)) + (if m = n then 1 else 0) \<and>
      deletes_of m (calls (outside st1)) = deletes_of m (calls (outside st)) \<and>
      posts_of m (calls (outside st)) \<le> posts_of m (calls (outside st1)) \<and>
      posts_of m (calls (outside st1)) \<le> posts_of m (calls (outside st)) + (if m = n then 1 else 0) \<and>
      skipped_count st1 = skipped_count st \<and> deleted_count st1 = deleted_count st \<and>
      ((\<exists>v. existing_emojis st1 = AList.update n v (existing_emojis st)
              \<and> error_count st1 = error_count st)
         \<or> (existing_emojis st1 = existing_emojis st \<and> error_count st1 = error_count st + 1)))"
  proof (cases "n \<in> ?K")
    case True
    with assms show ?thesis by (simp add: process_local_skip)
  next
    case False
    note f = process_local_new[OF False assms]
    from False f(1)[of m] f(2)[of m] f(3)[of m] f(4) f(5) f(7) show ?thesis by auto
  qed
  show "uploads_of m (calls (outside st1)) = uploads_of m (calls (outside st))
           + (if m = n \<and> n \<notin> ?K then 1 else 0)"
    using all by auto
  show "deletes_of m (calls (outside st1)) = deletes_of m (calls (outside st))"
    using all by auto
  show "posts_of m (calls (outside st)) \<le> posts_of m (calls (outside st1))
       \<and> posts_of m (calls (outside st1)) \<le> posts_of m (calls (outside st))
           + (if m = n \<and> n \<notin> ?K then 1 else 0)"
    using all by auto
  show "skipped_count st1 = skipped_count st + (if n \<in> ?K then 1 else 0)"
    using all by auto
  show "?K \<subseteq> set (keys (existing_emojis st1))"
    using all by (auto simp: keys_update_new)
  show "set (keys (existing_emojis st1)) \<subseteq> insert n ?K"
    using all by (auto simp: keys_update_new)
  show "map_of (existing_emojis st1) m = map_of (existing_emojis st) m" if "m \<in> ?K"
    using all that by (auto simp: update_conv')
  show "error_count st \<le> error_count st1"
    using all by auto
  show "n \<in> set (keys (existing_emojis st1))" if "error_count st1 = error_count st"
    using all that by (auto simp: keys_update_new)
  show "distinct (keys (existing_emojis st1))" if "distinct (keys (existing_emojis st))"
    using all that by (auto simp: keys_update_new)
  show "deleted_count st1 = deleted_count st"
    using all by auto
qed


subsection \<open>The first pass\<close>

lemma keys_Nil: "keys [] = []"
  by (simp add: keys_def)

lemma keys_Cons: "keys ((n, v) # d) = n # keys d"
  by (simp add: keys_def)

lemma upload_pass_Cons:
  assumes "upload_pass e ((n, fi) # L) st = Inr st'"
  obtains st1 where "process_local e (n, fi) st = Inr st1" and "upload_pass e L st1 = Inr st'"
  using assms by (auto split: sum.splits)

lemma upload_pass_keys:
  assumes "upload_pass e L st = Inr st'"
  shows "set (keys (existing_emojis st)) \<subseteq> set (keys (existing_emojis st'))
       \<and> set (keys (existing_emojis st')) \<subseteq> set (keys (existing_emojis st)) \<union> set (keys L)"
  using assms
proof (induction L arbitrary: st)
  case Nil
  then show ?case by simp
next
  case (Cons item L)
  obtain n fi where item: "item = (n, fi)" by (cases item) auto
  from Cons.prems[unfolded item] obtain st1 where s1: "process_local e (n, fi) st = Inr st1"
    and rest: "upload_pass e L st1 = Inr st'"
    by (rule upload_pass_Cons)
  from Cons.IH[OF rest] process_local_step(5,6)[OF s1] show ?case
    unfolding item keys_Cons by auto
qed

lemma upload_pass_counts:
  assumes "distinct (keys L)" and "upload_pass e L st = Inr st'"
  shows "uploads_of m (calls (outside st')) = uploads_of m (calls (outside st))
           + (if m \<in> set (keys L) \<and> m \<notin> set (keys (existing_emojis st)) then 1 else 0)
       \<and> posts_of m (calls (outside st)) \<le> posts_of m (calls (outside st'))
       \<and> posts_of m (calls (outside st')) \<le> posts_of m (calls (outside st))
           + (if m \<in> set (keys L) \<and> m \<notin> set (keys (existing_emojis st)) then 1 else 0)
       \<and> deletes_of m (calls (outside st')) = deletes_of m (calls (outside st))
       \<and> deleted_count st' = deleted_count st"
  using assms
proof (induction L arbitrary: st)
  case Nil
  then show ?case by (simp add: keys_Nil)
next
  case (Cons item L)
  obtain n fi where item: "item = (n, fi)" by (cases item) auto
  from Cons.prems(2)[unfolded item] obtain st1 where s1: "process_local e (n, fi) st = Inr st1"
    and rest: "upload_pass e L st1 = Inr st'"
    by (rule upload_pass_Cons)
  from Cons.prems(1) have d: "distinct (keys L)" and nL: "n \<notin> set (keys L)"
    by (simp_all add: item keys_Cons)
  note ih = Cons.IH[OF d rest]
  note s = process_local_step[OF s1]
  let ?K = "set (keys (existing_emojis st))"
  let ?K1 = "set (keys (existing_emojis st1))"
  have ind: "(if m \<in> set (keys L) \<and> m \<notin> ?K1 then 1 else 0)
           + (if m = n \<and> n \<notin> ?K then 1 else (0::nat))
           = (if m \<in> set (keys (item # L)) \<and> m \<notin> ?K then 1 else 0)"
  proof (cases "m = n")
    case True
    with nL show ?thesis by (simp add: item keys_Cons)
  next
    case False
    with s(5,6) have "(m \<in> ?K1) = (m \<in> ?K)" by auto
    with False show ?thesis by (simp add: item keys_Cons)
  qed
  have "uploads_of m (calls (outside st')) = uploads_of m (calls (outside st))
           + (if m \<in> set (keys (item # L)) \<and> m \<notin> ?K then 1 else 0)"
    using ih s(1)[of m] ind by linarith
  moreover have "posts_of m (calls (outside st)) \<le> posts_of m (calls (outside st'))"
    using ih s(3)[of m] by linarith
  moreover have "posts_of m (calls (outside st')) \<le> posts_of m (calls (outside st))
           + (if m \<in> set (keys (item # L)) \<and> m \<notin> ?K then 1 else 0)"
    using ih s(3)[of m] ind by linarith
  moreover have "deletes_of m (calls (outside st')) = deletes_of m (calls (outside st))"
    using ih s(2)[of m] by simp
  moreover have "deleted_count st' = deleted_count st"
    using ih s(11) by simp
  ultimately show ?case by blast
qed

lemma upload_pass_skipped:
  assumes "distinct (keys L)" and "upload_pass e L st = Inr st'"
  shows "skipped_count st' = skipped_count st
           + length (filter (\<lambda>n. n \<in> set (keys (existing_emojis st))) (keys L))"
  using assms
proof (induction L arbitrary: st)
  case Nil
  then show ?case by (simp add: keys_Nil)
next
  case (Cons item L)
  obtain n fi where item: "item = (n, fi)" by (cases item) auto
  from Cons.prems(2)[unfolded item] obtain st1 where s1: "process_local e (n, fi) st = Inr st1"
    and rest: "upload_pass e L st1 = Inr st'"
    by (rule upload_pass_Cons)
  from Cons.prems(1) have d: "distinct (keys L)" and nL: "n \<notin> set (keys L)"
    by (simp_all add: item keys_Cons)
  note s = process_local_step[OF s1]
  have "filter (\<lambda>x. x \<in> set (keys (existing_emojis st1))) (keys L)
      = filter (\<lambda>x. x \<in> set (keys (existing_emojis st))) (keys L)"
    using s(5,6) nL by (intro filter_cong) auto
  with Cons.IH[OF d rest] s(4) show ?case
    by (simp add: item keys_Cons)
qed

lemma upload_pass_map_of:
  assumes "upload_pass e L st = Inr st'" and "m \<in> set (keys (existing_emojis st))"
  shows "map_of (existing_emojis st') m = map_of (existing_emojis st) m"
  using assms
proof (induction L arbitrary: st)
  case Nil
  then show ?case by simp
next
  case (Cons item L)
  obtain n fi where item: "item = (n, fi)" by (cases item) auto
  from Cons.prems(1)[unfolded item] obtain st1 where s1: "process_local e (n, fi) st = Inr st1"
    and rest: "upload_pass e L st1 = Inr st'"
    by (rule upload_pass_Cons)
  note s = process_local_step[OF s1]
  from s(5) Cons.prems(2) have "m \<in> set (keys (existing_emojis st1))" by auto
  from Cons.IH[OF rest this] s(7)[OF Cons.prems(2)] show ?case by simp
qed


lemma upload_pass_distinct:
  assumes "upload_pass e L st = Inr st'" and "distinct (keys (existing_emojis st))"
  shows "distinct (keys (existing_emojis st'))"
  using assms
proof (induction L arbitrary: st)
  case Nil
  then show ?case by simp
next
  case (Cons item L)
  obtain n fi where item: "item = (n, fi)" by (cases item) auto
  from Cons.prems(1)[unfolded item] obtain st1 where s1: "process_local e (n, fi) st = Inr st1"
    and rest: "upload_pass e L st1 = Inr st'"
    by (rule upload_pass_Cons)
  from Cons.IH[OF rest process_local_step(10)[OF s1 Cons.prems(2)]] show ?case .
qed

subsection \<open>The second pass\<close>

lemma keys_delete: "keys (AList.delete n d) = removeAll n (keys d)"
  by (simp add: keys_def delete_keys)

lemma process_delete_step:
  assumes "process_delete e n st = Inr st1"
  shows "uploads_of m (calls (outside st1)) = uploads_of m (calls (outside st))"
    and "posts_of m (calls (outside st1)) = posts_of m (calls (outside st))"
    and "deletes_of m (calls (outside st1)) = deletes_of m (calls (outside st))
           + (if m = n then 1 else 0)"
    and "skipped_count st1 = skipped_count st"
    and "uploaded_count st1 = uploaded_count st"
    and "set (keys (existing_emojis st1)) \<subseteq> set (keys (existing_emojis st))"
    and "m \<noteq> n \<Longrightarrow> map_of (existing_emojis st1) m = map_of (existing_emojis st) m"
    and "m \<noteq> n \<Longrightarrow> (m \<in> set (keys (existing_emojis st1))) = (m \<in> set (keys (existing_emojis st)))"
    and "error_count st \<le> error_count st1"
    and "error_count st1 = error_count st \<Longrightarrow> n \<notin> set (keys (existing_emojis st1))"
    and "distinct (keys (existing_emojis st)) \<Longrightarrow> distinct (keys (existing_emojis st1))"
proof -
  from assms obtain info success message w where
    look: "map_of (existing_emojis st) n = Some info"
    and del: "delete_emoji e (info_id info) n (outside st) = Inr ((success, message), w)"
    by (auto simp: process_delete_def split: option.splits sum.splits)
  note c = delete_emoji_counts[OF del]
  have sl: "\<And>d. uploads_of m (calls (record_event (Sleep d) w)) = uploads_of m (calls w)"
    "\<And>d. deletes_of m (calls (record_event (Sleep d) w)) = deletes_of m (calls w)"
    "\<And>d. posts_of m (calls (record_event (Sleep d) w)) = posts_of m (calls w)"
    by (auto simp: record_event_def uploads_of_def deletes_of_def posts_of_def)
  from assms look del have st1: "(success \<and> st1 = st\<lparr>outside := record_event (Sleep (3 / 2)) w,
        existing_emojis := AList.delete n (existing_emojis st),
        deleted_count := deleted_count st + 1\<rparr>)
      \<or> (\<not> success \<and> st1 = record_failure message w st)"
    by (auto simp: process_delete_def split: if_splits)
  show "uploads_of m (calls (outside st1)) = uploads_of m (calls (outside st))"
    using st1 c(1)[of m] sl by (auto simp: record_failure_counts)
  show "posts_of m (calls (outside st1)) = posts_of m (calls (outside st))"
    using st1 c(3)[of m] sl by (auto simp: record_failure_counts)
  show "deletes_of m (calls (outside st1)) = deletes_of m (calls (outside st))
           + (if m = n then 1 else 0)"
    using st1 c(2)[of m] sl by (auto simp: record_failure_counts)
  show "skipped_count st1 = skipped_count st" using st1 by (auto simp: record_failure_fields)
  show "uploaded_count st1 = uploaded_count st" using st1 by (auto simp: record_failure_fields)
  show "set (keys (existing_emojis st1)) \<subseteq> set (keys (existing_emojis st))"
    using st1 by (auto simp: record_failure_fields keys_delete)
  show "map_of (existing_emojis st1) m = map_of (existing_emojis st) m" if "m \<noteq> n"
    using st1 that by (auto simp: record_failure_fields)
  show "(m \<in> set (keys (existing_emojis st1))) = (m \<in> set (keys (existing_emojis st)))" if "m \<noteq> n"
    using st1 that by (auto simp: record_failure_fields keys_delete)
  show "error_count st \<le> error_count st1" using st1 by (auto simp: record_failure_fields)
  show "n \<notin> set (keys (existing_emojis st1))" if "error_count st1 = error_count st"
    using st1 that by (auto simp: record_failure_fields keys_delete)
  show "distinct (keys (existing_emojis st1))" if "distinct (keys (existing_emojis st))"
    using st1 that by (auto simp: record_failure_fields keys_delete distinct_removeAll)
qed

lemma delete_pass_Cons:
  assumes "delete_pass e (n # ns) st = Inr st'"
  obtains st1 where "process_delete e n st = Inr st1" and "delete_pass e ns st1 = Inr st'"
  using assms by (auto split: sum.splits)

lemma delete_pass_counts:
  assumes "distinct ns" and "delete_pass e ns st = Inr st'"
  shows "deletes_of m (calls (outside st')) = deletes_of m (calls (outside st))
           + (if m \<in> set ns then 1 else 0)
       \<and> uploads_of m (calls (outside st')) = uploads_of m (calls (outside st))
       \<and> posts_of m (calls (outside st')) = posts_of m (calls (outside st))
       \<and> skipped_count st' = skipped_count st
       \<and> uploaded_count st' = uploaded_count st"
  using assms
proof (induction ns arbitrary: st)
  case Nil
  then show ?case by simp
next
  case (Cons n ns)
  from Cons.prems(2) obtain st1 where s1: "process_delete e n st = Inr st1"
    and rest: "delete_pass e ns st1 = Inr st'"
    by (rule delete_pass_Cons)
  from Cons.prems(1) have d: "distinct ns" and nn: "n \<notin> set ns" by simp_all
  note ih = Cons.IH[OF d rest]
  note s = process_delete_step[OF s1]
  have ind: "(if m \<in> set ns then 1 else 0) + (if m = n then 1 else (0::nat))
           = (if m \<in> set (n # ns) then 1 else 0)"
    using nn by auto
  have "deletes_of m (calls (outside st')) = deletes_of m (calls (outside st))
           + (if m \<in> set (n # ns) then 1 else 0)"
    using ih s(3)[of m] ind by linarith
  moreover have "uploads_of m (calls (outside st')) = uploads_of m (calls (outside st))"
    using ih s(1)[of m] by simp
  moreover have "posts_of m (calls (outside st')) = posts_of m (calls (outside st))"
    using ih s(2)[of m] by simp
  moreover have "skipped_count st' = skipped_count st" using ih s(4) by simp
  moreover have "uploaded_count st' = uploaded_count st" using ih s(5) by simp
  ultimately show ?case by blast
qed

lemma delete_pass_existing:
  assumes "delete_pass e ns st = Inr st'"
  shows "set (keys (existing_emojis st')) \<subseteq> set (keys (existing_emojis st))
       \<and> (m \<notin> set ns \<longrightarrow> map_of (existing_emojis st') m = map_of (existing_emojis st) m
            \<and> (m \<in> set (keys (existing_emojis st'))) = (m \<in> set (keys (existing_emojis st))))
       \<and> error_count st \<le> error_count st'
       \<and> (error_count st' = error_count st \<longrightarrow> set ns \<inter> set (keys (existing_emojis st')) = {})"
  using assms
proof (induction ns arbitrary: st)
  case Nil
  then show ?case by simp
next
  case (Cons n ns)
  from Cons.prems(1) obtain st1 where s1: "process_delete e n st = Inr st1"
    and rest: "delete_pass e ns st1 = Inr st'"
    by (rule delete_pass_Cons)
  note ih = Cons.IH[OF rest]
  note s = process_delete_step[OF s1]
  have "set (keys (existing_emojis st')) \<subseteq> set (keys (existing_emojis st))"
    using ih s(6) by blast
  moreover have "map_of (existing_emojis st') m = map_of (existing_emojis st) m
            \<and> (m \<in> set (keys (existing_emojis st'))) = (m \<in> set (keys (existing_emojis st)))"
    if "m \<notin> set (n # ns)"
    using ih s(7)[of m] s(8)[of m] that by simp
  moreover have "error_count st \<le> error_count st'" using ih s(9) by linarith
  moreover have "set (n # ns) \<inter> set (keys (existing_emojis st')) = {}"
    if eq: "error_count st' = error_count st"
  proof -
    from eq ih s(9) have e1: "error_count st1 = error_count st"
      and e2: "error_count st' = error_count st1"
      by linarith+
    from s(10)[OF e1] ih have "n \<notin> set (keys (existing_emojis st'))" by blast
    moreover from ih e2 have "set ns \<inter> set (keys (existing_emojis st')) = {}" by simp
    ultimately show ?thesis by simp
  qed
  ultimately show ?case by blast
qed

lemma set_emojis_to_delete:
  "set (emojis_to_delete e existing L) = set (keys existing) - set (keys L)"
  by (auto simp: emojis_to_delete_def)

lemma distinct_emojis_to_delete: "distinct (emojis_to_delete e existing L)"
  by (simp add: emojis_to_delete_def)

subsection \<open>Both passes\<close>

lemma start_fields:
  "outside (start R w) = w" "existing_emojis (start R w) = R" "skipped_count (start R w) = 0"
  "error_count (start R w) = 0" "uploaded_count (start R w) = 0" "deleted_count (start R w) = 0"
  by (simp_all add: start_def)

lemma reconcile_split:
  assumes "reconcile e L st = Inr st'"
  obtains sa where "upload_pass e L st = Inr sa"
    and "delete_pass e (emojis_to_delete e (existing_emojis sa) L) sa = Inr st'"
  using assms by (auto simp: reconcile_def split: sum.splits)

lemma reconcile_counts:
  assumes "distinct (keys L)" and "reconcile e L st = Inr st'"
  shows "uploads_of m (calls (outside st')) = uploads_of m (calls (outside st))
           + (if m \<in> set (keys L) \<and> m \<notin> set (keys (existing_emojis st)) then 1 else 0)"
    and "deletes_of m (calls (outside st')) = deletes_of m (calls (outside st))
           + (if m \<in> set (keys (existing_emojis st)) \<and> m \<notin> set (keys L) then 1 else 0)"
    and "posts_of m (calls (outside st)) \<le> posts_of m (calls (outside st'))
       \<and> posts_of m (calls (outside st')) \<le> posts_of m (calls (outside st))
           + (if m \<in> set (keys L) \<and> m \<notin> set (keys (existing_emojis st)) then 1 else 0)"
    and "skipped_count st' = skipped_count st
           + length (filter (\<lambda>n. n \<in> set (keys (existing_emojis st))) (keys L))"
    and "m \<in> set (keys L) \<Longrightarrow> m \<in> set (keys (existing_emojis st)) \<Longrightarrow>
           map_of (existing_emojis st') m = map_of (existing_emojis st) m"
proof -
  from assms(2) obtain sa where p1: "upload_pass e L st = Inr sa"
    and p2: "delete_pass e (emojis_to_delete e (existing_emojis sa) L) sa = Inr st'"
    by (rule reconcile_split)
  let ?ns = "emojis_to_delete e (existing_emojis sa) L"
  note c1 = upload_pass_counts[OF assms(1) p1, of m]
  note c2 = delete_pass_counts[OF distinct_emojis_to_delete p2, of m]
  note k1 = upload_pass_keys[OF p1]
  have del: "(m \<in> set ?ns) = (m \<in> set (keys (existing_emojis st)) \<and> m \<notin> set (keys L))"
    using k1 by (auto simp: set_emojis_to_delete)
  show "uploads_of m (calls (outside st')) = uploads_of m (calls (outside st))
           + (if m \<in> set (keys L) \<and> m \<notin> set (keys (existing_emojis st)) then 1 else 0)"
    using c1 c2 by simp
  show "deletes_of m (calls (outside st')) = deletes_of m (calls (outside st))
           + (if m \<in> set (keys (existing_emojis st)) \<and> m \<notin> set (keys L) then 1 else 0)"
    using c1 c2 del by simp
  show "posts_of m (calls (outside st)) \<le> posts_of m (calls (outside st'))
       \<and> posts_of m (calls (outside st')) \<le> posts_of m (calls (outside st))
           + (if m \<in> set (keys L) \<and> m \<notin> set (keys (existing_emojis st)) then 1 else 0)"
    using c1 c2 by simp
  show "skipped_count st' = skipped_count st
           + length (filter (\<lambda>n. n \<in> set (keys (existing_emojis st))) (keys L))"
    using upload_pass_skipped[OF assms(1) p1] c2 by simp
  show "map_of (existing_emojis st') m = map_of (existing_emojis st) m"
    if "m \<in> set (keys L)" "m \<in> set (keys (existing_emojis st))"
  proof -
    from that(1) have "m \<notin> set ?ns" by (simp add: set_emojis_to_delete)
    with delete_pass_existing[OF p2, of m]
    have "map_of (existing_emojis st') m = map_of (existing_emojis sa) m" by simp
    with upload_pass_map_of[OF p1 that(2)] show ?thesis by simp
  qed
qed

lemma length_filter_card:
  "distinct xs \<Longrightarrow> length (filter (\<lambda>n. n \<in> A) xs) = card (set xs \<inter> A)"
proof -
  assume d: "distinct xs"
  have e: "set xs \<inter> A = set (filter (\<lambda>n. n \<in> A) xs)" by auto
  from d have "distinct (filter (\<lambda>n. n \<in> A) xs)" by simp
  from distinct_card[OF this] show ?thesis unfolding e by simp
qed

subsection \<open>Running twice\<close>






subsection \<open>The whole process\<close>

lemma main_early:
  "\<not> truthy (BOT_TOKEN e) \<or> \<not> truthy (APPLICATION_ID e) \<Longrightarrow>
   main e = Inr \<lparr>exit_code = 1, final_world = \<lparr>calls = [], tmp = []\<rparr>, final_run = None\<rparr>"
  by (auto simp: main_def)

lemma main_run:
  assumes "truthy (BOT_TOKEN e)" and "truthy (APPLICATION_ID e)" and "main e = Inr out"
  obtains existing w2 st f w3 where
    "get_existing_emojis e
       (if \<not> folder_exists e then record_event (Mkdir (EMOJI_FOLDER e)) \<lparr>calls = [], tmp = []\<rparr>
        else \<lparr>calls = [], tmp = []\<rparr>) = Inr (existing, w2)"
    and "reconcile e (find_all_emoji_files e (EMOJI_FOLDER e)) (start existing w2) = Inr st"
    and "write_emoji_codes e (existing_emojis st) (find_all_emoji_files e (EMOJI_FOLDER e)) (outside st) = Inr (f, w3)"
    and "out = \<lparr>exit_code = (if error_count st > 0 then 1 else 0), final_world = w3,
                final_run = Some (st\<lparr>outside := w3\<rparr>)\<rparr>"
proof -
  let ?w1 = "if \<not> folder_exists e then record_event (Mkdir (EMOJI_FOLDER e)) \<lparr>calls = [], tmp = []\<rparr>
        else \<lparr>calls = [], tmp = []\<rparr>"
  have k: "\<not> (\<not> folder_exists e \<and> \<not> mkdir_ok e)"
  proof
    assume "\<not> folder_exists e \<and> \<not> mkdir_ok e"
    with assms(1,2) have "main e = Inl OSError" by (simp add: main_def)
    with assms(3) show False by simp
  qed
  have m: "main e = (case get_existing_emojis e ?w1 of
                Inl x \<Rightarrow> Inl x
              | Inr (existing, w2) \<Rightarrow>
                  (case reconcile e (find_all_emoji_files e (EMOJI_FOLDER e)) (start existing w2) of
                        Inl x \<Rightarrow> Inl x
                      | Inr st \<Rightarrow>
                          (case write_emoji_codes e (existing_emojis st) (find_all_emoji_files e (EMOJI_FOLDER e)) (outside st) of
                             Inl x \<Rightarrow> Inl x
                           | Inr (f, w3) \<Rightarrow>
                               Inr \<lparr>exit_code = (if error_count st > 0 then 1 else 0),
                                    final_world = w3,
                                    final_run = Some (st\<lparr>outside := w3\<rparr>)\<rparr>)))"
    using assms(1,2) k unfolding main_def Let_def by (simp only: simp_thms if_False)
  from assms(3) m obtain existing w2 where g: "get_existing_emojis e ?w1 = Inr (existing, w2)"
    by (cases "get_existing_emojis e ?w1") auto
  from assms(3) m g obtain st where r: "reconcile e (find_all_emoji_files e (EMOJI_FOLDER e)) (start existing w2) = Inr st"
    by (cases "reconcile e (find_all_emoji_files e (EMOJI_FOLDER e)) (start existing w2)") auto
  from assms(3) m g r obtain f w3 where
    wr: "write_emoji_codes e (existing_emojis st) (find_all_emoji_files e (EMOJI_FOLDER e)) (outside st) = Inr (f, w3)"
    by (cases "write_emoji_codes e (existing_emojis st) (find_all_emoji_files e (EMOJI_FOLDER e)) (outside st)") auto
  from assms(3) m g r wr have "out = \<lparr>exit_code = (if error_count st > 0 then 1 else 0), final_world = w3,
                final_run = Some (st\<lparr>outside := w3\<rparr>)\<rparr>"
    by simp
  with g r wr show thesis by (rule that)
qed

text \<open>
  C6, as the code has it. When the bot token or the application identifier is absent
  (unset or empty, as \<open>not\<close> tests it), \<open>main\<close> exits with the code 1 and the log is empty:
  nothing was requested. The process ends with the status 1 exactly when a credential is
  absent, or an exception leaves \<open>main\<close> (a request that raises, a body that does not
  decode or lacks a key, a file that cannot be read, a folder or a report that cannot be
  written, a time zone that is not found), or the error count of the run is above zero;
  otherwise it ends with the status 0.
\<close>

theorem exit_status_cases:
  "(\<not> truthy (BOT_TOKEN e) \<or> \<not> truthy (APPLICATION_ID e) \<longrightarrow>
      main e = Inr \<lparr>exit_code = 1, final_world = \<lparr>calls = [], tmp = []\<rparr>, final_run = None\<rparr>)
   \<and> (exit_status e = 1 \<longleftrightarrow>
        \<not> truthy (BOT_TOKEN e) \<or> \<not> truthy (APPLICATION_ID e)
        \<or> (\<exists>x. main e = Inl x)
        \<or> (\<exists>out st. main e = Inr out \<and> final_run out = Some st \<and> 0 < error_count st))
   \<and> (exit_status e \<noteq> 1 \<longrightarrow> exit_status e = 0)"
proof -
  have early: "\<not> truthy (BOT_TOKEN e) \<or> \<not> truthy (APPLICATION_ID e) \<longrightarrow>
      main e = Inr \<lparr>exit_code = 1, final_world = \<lparr>calls = [], tmp = []\<rparr>, final_run = None\<rparr>"
    using main_early by blast
  have rest: "(exit_status e = 1 \<longleftrightarrow>
        \<not> truthy (BOT_TOKEN e) \<or> \<not> truthy (APPLICATION_ID e)
        \<or> (\<exists>x. main e = Inl x)
        \<or> (\<exists>out st. main e = Inr out \<and> final_run out = Some st \<and> 0 < error_count st))
   \<and> (exit_status e \<noteq> 1 \<longrightarrow> exit_status e = 0)"
  proof (cases "main e")
    case (Inl x)
    then show ?thesis by (simp add: exit_status_def)
  next
    case (Inr out)
    show ?thesis
    proof (cases "truthy (BOT_TOKEN e) \<and> truthy (APPLICATION_ID e)")
      case False
      then have a: "\<not> truthy (BOT_TOKEN e) \<or> \<not> truthy (APPLICATION_ID e)" by blast
      from main_early[OF a] a show ?thesis by (simp add: exit_status_def)
    next
      case True
      then have t: "truthy (BOT_TOKEN e)" "truthy (APPLICATION_ID e)" by simp_all
      from t Inr obtain st w3 where
        o: "out = \<lparr>exit_code = (if error_count st > 0 then 1 else 0), final_world = w3,
                  final_run = Some (st\<lparr>outside := w3\<rparr>)\<rparr>"
        by (rule main_run)
      from t Inr show ?thesis unfolding o by (simp add: exit_status_def)
    qed
  qed
  from early rest show ?thesis by blast
qed

theorem exit_status_cases_witness:
  "main (example_env\<lparr>APPLICATION_ID := None\<rparr>)
     = Inr \<lparr>exit_code = 1, final_world = \<lparr>calls = [], tmp = []\<rparr>, final_run = None\<rparr>
   \<and> exit_status (example_env\<lparr>APPLICATION_ID := None\<rparr>) = 1
   \<and> exit_status example_env = 0
   \<and> exit_status (example_env\<lparr>http := rate_limited_http\<rparr>) = 1
   \<and> exit_status (example_env\<lparr>report_writable := False\<rparr>) = 1"
proof -
  have a: "\<not> truthy (BOT_TOKEN (example_env\<lparr>APPLICATION_ID := None\<rparr>))
         \<or> \<not> truthy (APPLICATION_ID (example_env\<lparr>APPLICATION_ID := None\<rparr>))"
    by simp
  have t: "truthy (BOT_TOKEN example_env)" "truthy (APPLICATION_ID example_env)"
    "truthy (BOT_TOKEN (example_env\<lparr>http := rate_limited_http\<rparr>))"
    "truthy (APPLICATION_ID (example_env\<lparr>http := rate_limited_http\<rparr>))"
    by (simp_all add: example_env_def)
  have "\<not> isl (main example_env)
      \<and> (case final_run (projr (main example_env)) of None \<Rightarrow> False
          | Some st \<Rightarrow> error_count st = 0)"
    by code_simp
  then obtain out where o: "main example_env = Inr out"
    and oe: "\<forall>st. final_run out = Some st \<longrightarrow> error_count st = 0"
    by (cases "main example_env") (auto split: option.splits)
  have "\<not> isl (main (example_env\<lparr>http := rate_limited_http\<rparr>))
      \<and> (case final_run (projr (main (example_env\<lparr>http := rate_limited_http\<rparr>))) of
            None \<Rightarrow> False
          | Some st \<Rightarrow> 0 < error_count st)"
    by code_simp
  then obtain out' where o': "main (example_env\<lparr>http := rate_limited_http\<rparr>) = Inr out'"
    and oe': "\<exists>st. final_run out' = Some st \<and> 0 < error_count st"
    by (cases "main (example_env\<lparr>http := rate_limited_http\<rparr>)") (auto split: option.splits)
  have "isl (main (example_env\<lparr>report_writable := False\<rparr>))" by code_simp
  then obtain x where r: "main (example_env\<lparr>report_writable := False\<rparr>) = Inl x"
    by (cases "main (example_env\<lparr>report_writable := False\<rparr>)") auto
  from exit_status_cases [of "example_env\<lparr>APPLICATION_ID := None\<rparr>"] a
  have 1: "main (example_env\<lparr>APPLICATION_ID := None\<rparr>)
     = Inr \<lparr>exit_code = 1, final_world = \<lparr>calls = [], tmp = []\<rparr>, final_run = None\<rparr>"
    and 2: "exit_status (example_env\<lparr>APPLICATION_ID := None\<rparr>) = 1"
    by blast+
  from exit_status_cases [of example_env] o oe t have 3: "exit_status example_env = 0"
    by auto
  from exit_status_cases [of "example_env\<lparr>http := rate_limited_http\<rparr>"] o' oe'
  have 4: "exit_status (example_env\<lparr>http := rate_limited_http\<rparr>) = 1" by blast
  from exit_status_cases [of "example_env\<lparr>report_writable := False\<rparr>"] r
  have 5: "exit_status (example_env\<lparr>report_writable := False\<rparr>) = 1" by blast
  from 1 2 3 4 5 show ?thesis by blast
qed

text \<open>
  C6 as it is stated fails: when the network is down the listing request raises, nothing
  catches it, and the process ends with the status 1 although both credentials are
  present and no error was counted.
\<close>

theorem exit_status_counterexample:
  "truthy (BOT_TOKEN (example_env\<lparr>http := no_network_http\<rparr>))
   \<and> truthy (APPLICATION_ID (example_env\<lparr>http := no_network_http\<rparr>))
   \<and> main (example_env\<lparr>http := no_network_http\<rparr>) = Inl RequestException
   \<and> exit_status (example_env\<lparr>http := no_network_http\<rparr>) = 1"
  by (simp add: exit_status_def main_def get_existing_emojis_def example_env_def
      no_network_http_def)

subsection \<open>The listing\<close>

lemma collect_items_listed:
  "\<exists>d. collect_items (map listed ts) acc = Inr d
     \<and> map_of d = map_of acc ++ map_of (rev (map stored ts))
     \<and> (distinct (keys acc) \<longrightarrow> distinct (keys d))"
proof (induction ts arbitrary: acc)
  case Nil
  then show ?case by simp
next
  case (Cons t ts)
  obtain n i a where t: "t = (n, i, a)" by (cases t) auto
  let ?v = "\<lparr>info_id = i, info_animated = (a = Some True)\<rparr>"
  have v: "(case a of None \<Rightarrow> False | Some b \<Rightarrow> b) = (a = Some True)"
    by (cases a) auto
  from Cons.IH[of "AList.update n ?v acc"] obtain d where
    d: "collect_items (map listed ts) (AList.update n ?v acc) = Inr d"
    and m: "map_of d = map_of (AList.update n ?v acc) ++ map_of (rev (map stored ts))"
    and di: "distinct (keys (AList.update n ?v acc)) \<longrightarrow> distinct (keys d)"
    by blast
  have 1: "collect_items (map listed (t # ts)) acc = Inr d"
    using d by (simp add: t listed_def v)
  have 2: "map_of d = map_of acc ++ map_of (rev (map stored (t # ts)))"
    unfolding m by (simp add: t stored_def update_conv' map_add_upd_left[symmetric] del: map_add_upd_left)
  have 3: "distinct (keys acc) \<longrightarrow> distinct (keys d)"
    using di by (simp add: keys_def distinct_update)
  from 1 2 3 show ?case by blast
qed


lemma scan_entries_distinct:
  "distinct (keys acc) \<Longrightarrow> distinct (keys (scan_entries ds acc))"
proof (induction ds arbitrary: acc)
  case Nil
  then show ?case by simp
next
  case (Cons d ds)
  have "distinct (keys (AList.update k v acc))" for k v
    using Cons.prems by (simp add: keys_def distinct_update)
  with Cons show ?case by (simp add: Let_def)
qed

lemma find_all_emoji_files_distinct: "distinct (keys (find_all_emoji_files e emoji_folder))"
  unfolding find_all_emoji_files_def by (rule scan_entries_distinct) (simp add: keys_def)

lemma get_existing_emojis_calls:
  "get_existing_emojis e w = Inr (d, w') \<Longrightarrow>
   w' = w\<lparr>calls := calls w @ [Request (GET (emojis_url e) (authorization e))]\<rparr>"
  by (auto simp: get_existing_emojis_def Let_def record_event_def
      split: option.splits if_splits json_value.splits sum.splits)

lemma write_emoji_codes_world:
  "write_emoji_codes e d l w = Inr (f, w') \<Longrightarrow>
   w' = record_event (Write_file (EMOJI_CODES_FILE e) (concat f)) w"
  by (auto simp: write_emoji_codes_def Let_def split: sum.splits option.splits if_splits)

text \<open>
  C5. When the listing request is answered with a status other than 200,
  \<open>get_existing_emojis\<close> returns the empty dictionary and does not fail, whatever the body
  is. When the status is 200 and the body lists items with a name and an id, it returns
  the dictionary of these items (the last item of a name wins, an absent animated flag is
  false). And when no listing is answered with 200, every run of \<open>main\<close> that completes
  skipped nothing and made exactly one upload attempt for every local name.
\<close>

theorem listing_status:
  "(\<forall>r. http e (calls w) (GET (emojis_url e) (authorization e)) = Some r \<longrightarrow>
        status_code r \<noteq> 200 \<longrightarrow>
        get_existing_emojis e w
          = Inr ([], w\<lparr>calls := calls w @ [Request (GET (emojis_url e) (authorization e))]\<rparr>))
   \<and> (\<forall>r ts. http e (calls w) (GET (emojis_url e) (authorization e)) = Some r \<longrightarrow>
        status_code r = 200 \<longrightarrow> json r = Some (JItems (map listed ts)) \<longrightarrow>
        (\<exists>d. get_existing_emojis e w
                = Inr (d, w\<lparr>calls := calls w @ [Request (GET (emojis_url e) (authorization e))]\<rparr>)
             \<and> map_of d = map_of (rev (map stored ts))
             \<and> distinct (keys d)))
   \<and> ((\<forall>tr r. http e tr (GET (emojis_url e) (authorization e)) = Some r \<longrightarrow>
           status_code r \<noteq> 200) \<longrightarrow>
       truthy (BOT_TOKEN e) \<longrightarrow> truthy (APPLICATION_ID e) \<longrightarrow>
       (\<forall>out. main e = Inr out \<longrightarrow>
          (\<exists>st. final_run out = Some st \<and> skipped_count st = 0
             \<and> (\<forall>n \<in> set (keys (find_all_emoji_files e (EMOJI_FOLDER e))).
                   uploads_of n (calls (final_world out)) = 1))))"
proof (intro conjI allI impI)
  fix r
  assume "http e (calls w) (GET (emojis_url e) (authorization e)) = Some r"
    and "status_code r \<noteq> 200"
  then show "get_existing_emojis e w
          = Inr ([], w\<lparr>calls := calls w @ [Request (GET (emojis_url e) (authorization e))]\<rparr>)"
    by (simp add: get_existing_emojis_def record_event_def)
next
  fix r ts
  assume h: "http e (calls w) (GET (emojis_url e) (authorization e)) = Some r"
    and s: "status_code r = 200" and j: "json r = Some (JItems (map listed ts))"
  from collect_items_listed[of ts "[]"] obtain d where
    c: "collect_items (map listed ts) [] = Inr d"
    and m: "map_of d = map_of (rev (map stored ts))"
    and di: "distinct (keys d)"
    by (auto simp: keys_def)
  from h s j c have "get_existing_emojis e w
                = Inr (d, w\<lparr>calls := calls w @ [Request (GET (emojis_url e) (authorization e))]\<rparr>)"
    by (simp add: get_existing_emojis_def record_event_def)
  with m di show "\<exists>d. get_existing_emojis e w
                = Inr (d, w\<lparr>calls := calls w @ [Request (GET (emojis_url e) (authorization e))]\<rparr>)
             \<and> map_of d = map_of (rev (map stored ts))
             \<and> distinct (keys d)"
    by blast
next
  fix out
  assume never: "\<forall>tr r. http e tr (GET (emojis_url e) (authorization e)) = Some r \<longrightarrow>
           status_code r \<noteq> 200"
    and t: "truthy (BOT_TOKEN e)" "truthy (APPLICATION_ID e)"
    and m: "main e = Inr out"
  let ?w1 = "if \<not> folder_exists e then record_event (Mkdir (EMOJI_FOLDER e)) \<lparr>calls = [], tmp = []\<rparr>
        else \<lparr>calls = [], tmp = []\<rparr>"
  let ?L = "find_all_emoji_files e (EMOJI_FOLDER e)"
  from t m obtain existing w2 st f w3 where
    g: "get_existing_emojis e ?w1 = Inr (existing, w2)"
    and r: "reconcile e ?L (start existing w2) = Inr st"
    and wr: "write_emoji_codes e (existing_emojis st) ?L (outside st) = Inr (f, w3)"
    and out: "out = \<lparr>exit_code = (if error_count st > 0 then 1 else 0), final_world = w3,
                final_run = Some (st\<lparr>outside := w3\<rparr>)\<rparr>"
    by (rule main_run)
  from g never have ex: "existing = []"
    by (auto simp: get_existing_emojis_def Let_def
        split: option.splits if_splits json_value.splits sum.splits)
  from get_existing_emojis_calls[OF g]
  have u2: "uploads_of n (calls w2) = 0" for n
    by (simp add: uploads_of_def record_event_def)
  from wr have w3: "w3 = record_event (Write_file (EMOJI_CODES_FILE e) (concat f)) (outside st)"
    by (rule write_emoji_codes_world)
  have u3: "uploads_of n (calls w3) = uploads_of n (calls (outside st))" for n
    unfolding w3 by (simp add: uploads_of_def record_event_def)
  note c = reconcile_counts[OF find_all_emoji_files_distinct r, unfolded start_fields ex]
  have sk: "skipped_count st = 0" using c(4) by (simp add: keys_Nil)
  have up: "\<forall>n \<in> set (keys ?L). uploads_of n (calls (final_world out)) = 1"
  proof
    fix n assume "n \<in> set (keys ?L)"
    with c(1)[of n] u2[of n] u3[of n] show "uploads_of n (calls (final_world out)) = 1"
      by (simp add: out keys_Nil)
  qed
  from sk up show "\<exists>st. final_run out = Some st \<and> skipped_count st = 0
             \<and> (\<forall>n \<in> set (keys (find_all_emoji_files e (EMOJI_FOLDER e))).
                   uploads_of n (calls (final_world out)) = 1)"
    by (simp add: out)
qed


theorem listing_status_witness:
  "get_existing_emojis (example_env\<lparr>http := rate_limited_http\<rparr>) \<lparr>calls = [], tmp = []\<rparr>
     = Inr ([], \<lparr>calls = [Request (GET ''https://discord.com/api/v10/applications/42/emojis''
                                    ''Bot token'')],
                 tmp = []\<rparr>)
   \<and> (\<exists>d w'. get_existing_emojis example_env \<lparr>calls = [], tmp = []\<rparr> = Inr (d, w')
          \<and> map_of d ''old'' = Some \<lparr>info_id = ''123'', info_animated = False\<rparr>)
   \<and> (\<exists>out st. main (example_env\<lparr>http := rate_limited_http\<rparr>) = Inr out
          \<and> final_run out = Some st \<and> skipped_count st = 0
          \<and> uploads_of ''smile'' (calls (final_world out)) = 1
          \<and> uploads_of ''wave'' (calls (final_world out)) = 1)"
proof -
  let ?e = "example_env\<lparr>http := rate_limited_http\<rparr>"
  let ?w = "\<lparr>calls = [], tmp = []\<rparr>"
  have u: "emojis_url ?e = ''https://discord.com/api/v10/applications/42/emojis''"
    "authorization ?e = ''Bot token''"
    "emojis_url example_env = ''https://discord.com/api/v10/applications/42/emojis''"
    "authorization example_env = ''Bot token''"
    by (simp_all add: emojis_url_def authorization_def example_env_def)
  have a1: "http ?e (calls ?w) (GET (emojis_url ?e) (authorization ?e))
      = Some \<lparr>status_code = 429, resp_text = ''slow down'', json = None\<rparr>"
    by (simp add: rate_limited_http_def)
  have a2: "status_code \<lparr>status_code = 429, resp_text = ''slow down'', json = None\<rparr> \<noteq> 200"
    by simp
  from listing_status [of ?e ?w] a1 a2
  have 1: "get_existing_emojis ?e ?w
     = Inr ([], ?w\<lparr>calls := calls ?w @ [Request (GET (emojis_url ?e) (authorization ?e))]\<rparr>)"
    by blast
  let ?r = "\<lparr>status_code = 200, resp_text = [],
             json = Some (JItems (map listed [(''old'', ''123'', None)]))\<rparr>"
  have b1: "http example_env (calls ?w) (GET (emojis_url example_env) (authorization example_env))
      = Some ?r"
    by (simp add: example_env_def example_http_def listed_def)
  have b2: "status_code ?r = 200" "json ?r = Some (JItems (map listed [(''old'', ''123'', None)]))"
    by simp_all
  from listing_status [of example_env ?w] b1 b2
  obtain d where 2: "get_existing_emojis example_env ?w
      = Inr (d, ?w\<lparr>calls := calls ?w
               @ [Request (GET (emojis_url example_env) (authorization example_env))]\<rparr>)"
    and m: "map_of d = map_of (rev (map stored [(''old'', ''123'', None)]))"
    by blast
  from m have g2: "map_of d ''old'' = Some \<lparr>info_id = ''123'', info_animated = False\<rparr>"
    by (simp add: stored_def)
  have c1: "\<forall>tr r. http ?e tr (GET (emojis_url ?e) (authorization ?e)) = Some r \<longrightarrow>
           status_code r \<noteq> 200"
    by (auto simp: rate_limited_http_def)
  have c2: "truthy (BOT_TOKEN ?e)" "truthy (APPLICATION_ID ?e)"
    by (simp_all add: example_env_def)
  have "\<not> isl (main ?e)" by code_simp
  then obtain out where o: "main ?e = Inr out" by (cases "main ?e") auto
  have k: "set (keys (find_all_emoji_files ?e (EMOJI_FOLDER ?e))) = {''smile'', ''wave''}"
    by code_simp
  from listing_status [of ?e ?w] c1 c2 o obtain st where
    3: "final_run out = Some st" "skipped_count st = 0"
      "\<forall>n \<in> set (keys (find_all_emoji_files ?e (EMOJI_FOLDER ?e))). uploads_of n (calls (final_world out)) = 1"
    by blast
  from 3(3) have 4: "uploads_of ''smile'' (calls (final_world out)) = 1"
    "uploads_of ''wave'' (calls (final_world out)) = 1"
    unfolding k by simp_all
  from 1 have g1: "get_existing_emojis ?e ?w
     = Inr ([], \<lparr>calls = [Request (GET ''https://discord.com/api/v10/applications/42/emojis''
                                    ''Bot token'')],
                 tmp = []\<rparr>)"
    unfolding u by simp
  from g1 2 g2 o 3(1,2) 4 show ?thesis by blast
qed

subsection \<open>Extensions and MIME types\<close>

lemma str_nat_hd: "\<exists>c cs. str_nat n = c # cs \<and> c \<in> set ''0123456789''"
proof (induction n rule: str_nat.induct)
  case (1 n)
  show ?case
  proof (cases "n < 10")
    case True
    have "n mod 10 < 10" by simp
    then have "''0123456789'' ! (n mod 10) \<in> set ''0123456789''"
      using nth_mem[of "n mod 10" "''0123456789''"] by simp
    with True show ?thesis
      by (subst str_nat.simps) (simp add: digit_char_def)
  next
    case False
    with 1 obtain c cs where "str_nat (n div 10) = c # cs" "c \<in> set ''0123456789''" by auto
    with False show ?thesis by (subst str_nat.simps) simp
  qed
qed

lemma str_int_hd: "\<exists>c cs. str_int i = c # cs \<and> c \<in> set ''-0123456789''"
  using str_nat_hd[of "nat i"] str_nat_hd[of "nat (- i)"] by (auto simp: str_int_def)

lemma status_message_not_unsupported: "str_int i @ s \<noteq> ''Unsupported format''"
  using str_int_hd[of i] by auto

lemma image_type_supported:
  "x \<in> set SUPPORTED_FORMATS \<Longrightarrow> x \<noteq> ''.svg'' \<Longrightarrow> image_type_of x \<noteq> None"
  by (auto simp: SUPPORTED_FORMATS_def image_type_of_def)

lemma prepare_svg_ext:
  assumes "lower (suffix p) \<in> set SUPPORTED_FORMATS"
    and "prepare_svg e p w = Inr (fp, ext, t, w1)"
  shows "image_type_of ext \<noteq> None"
  using assms image_type_supported[of "lower (suffix p)"]
  by (auto simp: prepare_svg_def Let_def image_type_of_def split: if_splits prod.splits)

text \<open>
  C10. A file that the scanner accepts (the lower-cased suffix of its path is one of
  \<open>SUPPORTED_FORMATS\<close>) never makes \<open>upload_emoji\<close> return the failure
  \<open>Unsupported format\<close>: a raster extension has a MIME type, and \<open>.svg\<close> has become
  \<open>.png\<close> before the lookup.
\<close>

theorem supported_extension_never_unsupported:
  assumes "lower (suffix file_path) \<in> set SUPPORTED_FORMATS"
  shows "upload_emoji e file_path emoji_name w \<noteq> Inr ((False, ''Unsupported format'', None), w')"
proof
  assume a: "upload_emoji e file_path emoji_name w = Inr ((False, ''Unsupported format'', None), w')"
  show False
  proof (cases "prepare_svg e file_path (record_event (Call_upload_emoji file_path emoji_name) w)")
    case (Inl early)
    with a show False
      by (auto simp: upload_emoji_def prepare_svg_def Let_def split: if_splits prod.splits)
  next
    case (Inr r)
    obtain fp ext t w1 where r: "r = (fp, ext, t, w1)" by (cases r) auto
    from prepare_svg_ext[OF assms Inr[unfolded r]] obtain ty where ty: "image_type_of ext = Some ty"
      by auto
    from a Inr r ty show False
      using status_message_not_unsupported
      by (auto simp: upload_emoji_def Let_def split: option.splits if_splits)
  qed
qed

theorem supported_extension_never_unsupported_witness:
  "lower (suffix ''emojis/sub/wave.GIF'') \<in> set SUPPORTED_FORMATS
   \<and> upload_emoji example_env ''emojis/sub/wave.GIF'' ''wave'' \<lparr>calls = [], tmp = []\<rparr>
       \<noteq> Inr ((False, ''Unsupported format'', None), \<lparr>calls = [], tmp = []\<rparr>)"
proof -
  have h: "lower (suffix ''emojis/sub/wave.GIF'') \<in> set SUPPORTED_FORMATS"
    by (simp add: lower_def suffix_def path_name_def rfind_def lower_char_def
        SUPPORTED_FORMATS_def)
  from supported_extension_never_unsupported [OF h] h show ?thesis by blast
qed

subsection \<open>The requests of a run\<close>

text \<open>
  Whether an upload sends its POST request: a vector file sends none when cairosvg is not
  installed, when the renderer raises, or when no scratch file can be made; a file of a
  supported format whose conversion, if it needs one, succeeds sends exactly one.
\<close>

lemma upload_emoji_no_post:
  assumes "upload_emoji e p n w = Inr (r, w')" and "lower (suffix p) = ''.svg''"
    and "\<not> SVG_SUPPORT e \<or> svg2png e p = None \<or> (\<forall>tr. \<not> truthy (mktemp e tr))"
  shows "calls w' = calls w @ [Call_upload_emoji p n]"
proof -
  let ?w = "record_event (Call_upload_emoji p n) w"
  have "\<exists>r0 w0. prepare_svg e p ?w = Inl (r0, w0)"
  proof (cases "SVG_SUPPORT e")
    case False
    with assms(2) show ?thesis by (auto simp: prepare_svg_def)
  next
    case True
    with assms(3) have c: "svg2png e p = None \<or> (\<forall>tr. \<not> truthy (mktemp e tr))" by blast
    have "\<not> truthy (fst (convert_svg_to_png e p ?w))"
    proof (cases "mktemp e (calls ?w)")
      case None
      with True show ?thesis by (simp add: convert_svg_to_png_def)
    next
      case (Some t)
      show ?thesis
      proof (cases "svg2png e p")
        case None
        with True Some show ?thesis by (simp add: convert_svg_to_png_def)
      next
        case (Some png)
        with c have "\<not> truthy (mktemp e (calls ?w))" by auto
        with True \<open>mktemp e (calls ?w) = Some t\<close> Some show ?thesis
          by (simp add: convert_svg_to_png_def)
      qed
    qed
    with True assms(2) show ?thesis
      by (auto simp: prepare_svg_def split: prod.splits)
  qed
  then obtain r0 w0 where i: "prepare_svg e p ?w = Inl (r0, w0)" by blast
  from prepare_svg_calls_Inl[OF i] have "calls w0 = calls w @ [Call_upload_emoji p n]"
    by (simp add: record_event_def)
  with assms(1) i show ?thesis by (simp add: upload_emoji_def)
qed

lemma upload_emoji_one_post:
  assumes "upload_emoji e p n w = Inr (r, w')"
    and "lower (suffix p) \<in> set SUPPORTED_FORMATS"
    and "lower (suffix p) = ''.svg'' \<longrightarrow>
           SVG_SUPPORT e \<and> svg2png e p \<noteq> None \<and> (\<forall>tr. truthy (mktemp e tr))"
  shows "\<exists>img. calls w' = calls w
           @ [Call_upload_emoji p n, Request (POST (emojis_url e) (authorization e) n img)]"
proof -
  let ?w = "record_event (Call_upload_emoji p n) w"
  have "\<exists>fp ext t w1. prepare_svg e p ?w = Inr (fp, ext, t, w1)"
  proof (cases "lower (suffix p) = ''.svg''")
    case False
    then show ?thesis by (auto simp: prepare_svg_def)
  next
    case True
    with assms(3) have s: "SVG_SUPPORT e" and "svg2png e p \<noteq> None"
      and m: "truthy (mktemp e (calls ?w))" by blast+
    then obtain png t where "svg2png e p = Some png" "mktemp e (calls ?w) = Some t" "t \<noteq> []"
      by (cases "mktemp e (calls ?w)") auto
    with s True show ?thesis
      by (auto simp: prepare_svg_def convert_svg_to_png_def)
  qed
  then obtain fp ext t w1 where i: "prepare_svg e p ?w = Inr (fp, ext, t, w1)" by blast
  from prepare_svg_calls_Inr[OF i] have c: "calls w1 = calls w @ [Call_upload_emoji p n]"
    by (simp add: record_event_def)
  from prepare_svg_ext[OF assms(2) i] obtain ty where ty: "image_type_of ext = Some ty" by auto
  from assms(1) i ty c show ?thesis
    by (auto simp: upload_emoji_def Let_def record_event_def split: option.splits if_splits)
qed

lemma process_local_posts_exact:
  assumes "n \<notin> set (keys (existing_emojis st))" and "process_local e (n, fi) st = Inr st1"
  shows "lower (suffix (path fi)) = ''.svg''
           \<and> (\<not> SVG_SUPPORT e \<or> svg2png e (path fi) = None \<or> (\<forall>tr. \<not> truthy (mktemp e tr)))
         \<Longrightarrow> posts_of n (calls (outside st1)) = posts_of n (calls (outside st))"
    and "lower (suffix (path fi)) \<in> set SUPPORTED_FORMATS
           \<and> (lower (suffix (path fi)) = ''.svg'' \<longrightarrow>
                 SVG_SUPPORT e \<and> svg2png e (path fi) \<noteq> None \<and> (\<forall>tr. truthy (mktemp e tr)))
         \<Longrightarrow> posts_of n (calls (outside st1)) = posts_of n (calls (outside st)) + 1"
proof -
  from assms obtain success message emoji_data w where
    up: "upload_emoji e (path fi) n (outside st) = Inr ((success, message, emoji_data), w)"
    by (auto simp: process_local_def Let_def split: sum.splits)
  from assms up have o: "posts_of n (calls (outside st1)) = posts_of n (calls w)"
    by (auto simp: process_local_def Let_def record_failure_def record_event_def posts_of_def
        split: option.splits json_value.splits if_splits)
  show "posts_of n (calls (outside st1)) = posts_of n (calls (outside st))"
    if "lower (suffix (path fi)) = ''.svg''
           \<and> (\<not> SVG_SUPPORT e \<or> svg2png e (path fi) = None \<or> (\<forall>tr. \<not> truthy (mktemp e tr)))"
    using upload_emoji_no_post[OF up] that o by (simp add: posts_of_def)
  show "posts_of n (calls (outside st1)) = posts_of n (calls (outside st)) + 1"
    if "lower (suffix (path fi)) \<in> set SUPPORTED_FORMATS
           \<and> (lower (suffix (path fi)) = ''.svg'' \<longrightarrow>
                 SVG_SUPPORT e \<and> svg2png e (path fi) \<noteq> None \<and> (\<forall>tr. truthy (mktemp e tr)))"
  proof -
    from upload_emoji_one_post[OF up] that obtain img where
      "calls w = calls (outside st)
           @ [Call_upload_emoji (path fi) n, Request (POST (emojis_url e) (authorization e) n img)]"
      by blast
    with o show ?thesis by (simp add: posts_of_def)
  qed
qed

lemma upload_pass_posts_exact:
  assumes "distinct (keys L)" and "upload_pass e L st = Inr st'"
    and "(m, fi) \<in> set L" and "m \<notin> set (keys (existing_emojis st))"
    and step: "\<And>s s1. m \<notin> set (keys (existing_emojis s)) \<Longrightarrow> process_local e (m, fi) s = Inr s1
             \<Longrightarrow> posts_of m (calls (outside s1)) = posts_of m (calls (outside s)) + k"
  shows "posts_of m (calls (outside st')) = posts_of m (calls (outside st)) + k"
  using assms(1-4)
proof (induction L arbitrary: st)
  case Nil
  then show ?case by simp
next
  case (Cons item L)
  obtain n f where item: "item = (n, f)" by (cases item) auto
  from Cons.prems(2)[unfolded item] obtain st1 where s1: "process_local e (n, f) st = Inr st1"
    and rest: "upload_pass e L st1 = Inr st'"
    by (rule upload_pass_Cons)
  from Cons.prems(1) have d: "distinct (keys L)" and nL: "n \<notin> set (keys L)"
    by (simp_all add: item keys_Cons)
  show ?case
  proof (cases "m = n")
    case True
    from Cons.prems(3) nL True have f: "f = fi"
      by (auto simp: item keys_def intro: rev_image_eqI)
    from step[OF Cons.prems(4)] s1 True f
    have a: "posts_of m (calls (outside st1)) = posts_of m (calls (outside st)) + k" by simp
    from upload_pass_counts[OF d rest, of m] nL True
    have "posts_of m (calls (outside st')) = posts_of m (calls (outside st1))" by simp
    with a show ?thesis by simp
  next
    case False
    with Cons.prems(3) have mem: "(m, fi) \<in> set L" by (simp add: item)
    from process_local_step(6)[OF s1] Cons.prems(4) False
    have nk: "m \<notin> set (keys (existing_emojis st1))" by auto
    from process_local_step(3)[OF s1, of m] False
    have "posts_of m (calls (outside st1)) = posts_of m (calls (outside st))" by simp
    with Cons.IH[OF d rest mem nk] show ?thesis by simp
  qed
qed

text \<open>The first pass sends no deletion; the second sends one for each name it walks.\<close>

lemma upload_emoji_delete_events:
  assumes "upload_emoji e p n w = Inr (r, w')"
  shows "filter is_delete_event (calls w') = filter is_delete_event (calls w)"
  using upload_emoji_calls[OF assms] by auto

lemma process_local_delete_events:
  assumes "process_local e (n, fi) st = Inr st1"
  shows "filter is_delete_event (calls (outside st1)) = filter is_delete_event (calls (outside st))"
proof (cases "n \<in> set (keys (existing_emojis st))")
  case True
  with assms have "st1 = st\<lparr>skipped_count := skipped_count st + 1\<rparr>"
    by (simp add: process_local_skip)
  then show ?thesis by simp
next
  case False
  with assms obtain success message emoji_data w where
    up: "upload_emoji e (path fi) n (outside st) = Inr ((success, message, emoji_data), w)"
    by (auto simp: process_local_def Let_def split: sum.splits)
  from assms False up
  have "filter is_delete_event (calls (outside st1)) = filter is_delete_event (calls w)"
    by (auto simp: process_local_def Let_def record_failure_def record_event_def
        split: option.splits json_value.splits if_splits)
  with upload_emoji_delete_events[OF up] show ?thesis by simp
qed

lemma upload_pass_delete_events:
  assumes "upload_pass e L st = Inr st'"
  shows "filter is_delete_event (calls (outside st')) = filter is_delete_event (calls (outside st))"
  using assms
proof (induction L arbitrary: st)
  case Nil
  then show ?case by simp
next
  case (Cons item L)
  obtain n fi where item: "item = (n, fi)" by (cases item) auto
  from Cons.prems[unfolded item] obtain st1 where s1: "process_local e (n, fi) st = Inr st1"
    and rest: "upload_pass e L st1 = Inr st'"
    by (rule upload_pass_Cons)
  from Cons.IH[OF rest] process_local_delete_events[OF s1] show ?case by simp
qed

lemma delete_emoji_log:
  assumes "delete_emoji e i n w = Inr (r, w')"
  shows "calls w' = calls w
           @ [Call_delete_emoji i n, Request (DELETE (emojis_url e @ ''/'' @ i) (authorization e))]"
  using assms
  by (auto simp: delete_emoji_def Let_def record_event_def split: option.splits if_splits)

lemma process_delete_events:
  assumes "process_delete e n st = Inr st1"
  shows "filter is_delete_event (calls (outside st1))
       = filter is_delete_event (calls (outside st)) @ delete_events e (existing_emojis st) n"
proof -
  from assms obtain info success message w where
    look: "map_of (existing_emojis st) n = Some info"
    and del: "delete_emoji e (info_id info) n (outside st) = Inr ((success, message), w)"
    by (auto simp: process_delete_def split: option.splits sum.splits)
  from assms look del
  have "filter is_delete_event (calls (outside st1)) = filter is_delete_event (calls w)"
    by (auto simp: process_delete_def record_failure_def record_event_def split: if_splits)
  with delete_emoji_log[OF del] look show ?thesis
    by (simp add: delete_events_def)
qed

lemma delete_events_cong:
  "map_of d n = map_of d' n \<Longrightarrow> delete_events e d n = delete_events e d' n"
  by (simp add: delete_events_def)

lemma delete_pass_events:
  assumes "distinct ns" and "delete_pass e ns st = Inr st'"
  shows "filter is_delete_event (calls (outside st'))
       = filter is_delete_event (calls (outside st))
         @ concat (map (delete_events e (existing_emojis st)) ns)"
  using assms
proof (induction ns arbitrary: st)
  case Nil
  then show ?case by simp
next
  case (Cons n ns)
  from Cons.prems(2) obtain st1 where s1: "process_delete e n st = Inr st1"
    and rest: "delete_pass e ns st1 = Inr st'"
    by (rule delete_pass_Cons)
  from Cons.prems(1) have d: "distinct ns" and nn: "n \<notin> set ns" by simp_all
  have "map (delete_events e (existing_emojis st1)) ns
      = map (delete_events e (existing_emojis st)) ns"
  proof (rule map_cong[OF refl])
    fix m assume "m \<in> set ns"
    with nn have "m \<noteq> n" by auto
    from process_delete_step(7)[OF s1 this]
    show "delete_events e (existing_emojis st1) m = delete_events e (existing_emojis st) m"
      by (rule delete_events_cong)
  qed
  with Cons.IH[OF d rest] process_delete_events[OF s1] show ?case by simp
qed

lemma reconcile_delete_events:
  assumes "reconcile e L st = Inr st'"
  shows "\<exists>ns. distinct ns
           \<and> set ns = set (keys (existing_emojis st)) - set (keys L)
           \<and> filter is_delete_event (calls (outside st'))
             = filter is_delete_event (calls (outside st))
               @ concat (map (delete_events e (existing_emojis st)) ns)"
proof -
  from assms obtain sa where p1: "upload_pass e L st = Inr sa"
    and p2: "delete_pass e (emojis_to_delete e (existing_emojis sa) L) sa = Inr st'"
    by (rule reconcile_split)
  let ?ns = "emojis_to_delete e (existing_emojis sa) L"
  note k1 = upload_pass_keys[OF p1]
  have s: "set ?ns = set (keys (existing_emojis st)) - set (keys L)"
    using k1 by (auto simp: set_emojis_to_delete)
  have "map (delete_events e (existing_emojis sa)) ?ns
      = map (delete_events e (existing_emojis st)) ?ns"
  proof (rule map_cong[OF refl])
    fix m assume "m \<in> set ?ns"
    with s have "m \<in> set (keys (existing_emojis st))" by simp
    from upload_pass_map_of[OF p1 this]
    show "delete_events e (existing_emojis sa) m = delete_events e (existing_emojis st) m"
      by (rule delete_events_cong)
  qed
  with delete_pass_events[OF distinct_emojis_to_delete p2] upload_pass_delete_events[OF p1]
  have "filter is_delete_event (calls (outside st'))
             = filter is_delete_event (calls (outside st))
               @ concat (map (delete_events e (existing_emojis st)) ?ns)"
    by simp
  with s distinct_emojis_to_delete[of e "existing_emojis sa" L] show ?thesis by blast
qed

lemma reconcile_posts_exact:
  assumes "distinct (keys L)" and "reconcile e L st = Inr st'"
    and "map_of L n = Some fi" and "n \<notin> set (keys (existing_emojis st))"
  shows "lower (suffix (path fi)) = ''.svg''
           \<and> (\<not> SVG_SUPPORT e \<or> svg2png e (path fi) = None \<or> (\<forall>tr. \<not> truthy (mktemp e tr)))
         \<Longrightarrow> posts_of n (calls (outside st')) = posts_of n (calls (outside st))"
    and "lower (suffix (path fi)) \<in> set SUPPORTED_FORMATS
           \<and> (lower (suffix (path fi)) = ''.svg'' \<longrightarrow>
                 SVG_SUPPORT e \<and> svg2png e (path fi) \<noteq> None \<and> (\<forall>tr. truthy (mktemp e tr)))
         \<Longrightarrow> posts_of n (calls (outside st')) = posts_of n (calls (outside st)) + 1"
proof -
  from assms(2) obtain sa where p1: "upload_pass e L st = Inr sa"
    and p2: "delete_pass e (emojis_to_delete e (existing_emojis sa) L) sa = Inr st'"
    by (rule reconcile_split)
  from assms(3) have mem: "(n, fi) \<in> set L" by (rule map_of_SomeD)
  note c2 = delete_pass_counts[OF distinct_emojis_to_delete p2, of n]
  show "posts_of n (calls (outside st')) = posts_of n (calls (outside st))"
    if c: "lower (suffix (path fi)) = ''.svg''
           \<and> (\<not> SVG_SUPPORT e \<or> svg2png e (path fi) = None \<or> (\<forall>tr. \<not> truthy (mktemp e tr)))"
  proof -
    have "posts_of n (calls (outside sa)) = posts_of n (calls (outside st)) + 0"
      using assms(1) p1 mem assms(4)
    proof (rule upload_pass_posts_exact)
      fix s s1
      assume "n \<notin> set (keys (existing_emojis s))" "process_local e (n, fi) s = Inr s1"
      from process_local_posts_exact(1)[OF this c]
      show "posts_of n (calls (outside s1)) = posts_of n (calls (outside s)) + 0" by simp
    qed
    with c2 show ?thesis by simp
  qed
  show "posts_of n (calls (outside st')) = posts_of n (calls (outside st)) + 1"
    if c: "lower (suffix (path fi)) \<in> set SUPPORTED_FORMATS
           \<and> (lower (suffix (path fi)) = ''.svg'' \<longrightarrow>
                 SVG_SUPPORT e \<and> svg2png e (path fi) \<noteq> None \<and> (\<forall>tr. truthy (mktemp e tr)))"
  proof -
    have "posts_of n (calls (outside sa)) = posts_of n (calls (outside st)) + 1"
      using assms(1) p1 mem assms(4)
    proof (rule upload_pass_posts_exact)
      fix s s1
      assume "n \<notin> set (keys (existing_emojis s))" "process_local e (n, fi) s = Inr s1"
      from process_local_posts_exact(2)[OF this c]
      show "posts_of n (calls (outside s1)) = posts_of n (calls (outside s)) + 1" .
    qed
    with c2 show ?thesis by simp
  qed
qed

text \<open>
  Every POST request of a run is a Create request for a name that is local and not remote.
\<close>

lemma create_requests_Nil: "create_requests e names []"
  by (simp add: create_requests_def)

lemma create_requests_append:
  "create_requests e names xs \<Longrightarrow> create_requests e names ys \<Longrightarrow>
   create_requests e names (xs @ ys)"
  by (simp add: create_requests_def)

lemma is_create_request_mono:
  "is_create_request e A ev \<Longrightarrow> A \<subseteq> B \<Longrightarrow> is_create_request e B ev"
  by (induction e A ev rule: is_create_request.induct) auto

lemma create_requests_mono:
  "create_requests e A xs \<Longrightarrow> A \<subseteq> B \<Longrightarrow> create_requests e B xs"
  by (auto simp: create_requests_def list_all_iff intro: is_create_request_mono)

lemma upload_emoji_post_events:
  assumes "upload_emoji e p n w = Inr (r, w')"
  shows "\<exists>ps. filter is_post_event (calls w') = filter is_post_event (calls w) @ ps
           \<and> create_requests e {n} ps"
proof (cases "prepare_svg e p (record_event (Call_upload_emoji p n) w)")
  case (Inl early)
  obtain r0 w0 where "early = (r0, w0)" by (cases early) auto
  with assms Inl have "calls w' = calls w @ [Call_upload_emoji p n]"
    by (auto simp: upload_emoji_def Let_def record_event_def dest!: prepare_svg_calls_Inl)
  then have "filter is_post_event (calls w') = filter is_post_event (calls w) @ []" by simp
  with create_requests_Nil show ?thesis by blast
next
  case (Inr q)
  obtain fp ext t w1 where q: "q = (fp, ext, t, w1)" by (cases q) auto
  from Inr q have c: "calls w1 = calls w @ [Call_upload_emoji p n]"
    by (auto simp: record_event_def dest!: prepare_svg_calls_Inr)
  from assms Inr q c
  have "calls w' = calls w @ [Call_upload_emoji p n]
      \<or> (\<exists>img. calls w' = calls w
            @ [Call_upload_emoji p n, Request (POST (emojis_url e) (authorization e) n img)])"
    by (auto simp: upload_emoji_def Let_def record_event_def split: option.splits if_splits)
  then show ?thesis
  proof
    assume "calls w' = calls w @ [Call_upload_emoji p n]"
    then have "filter is_post_event (calls w') = filter is_post_event (calls w) @ []" by simp
    with create_requests_Nil show ?thesis by blast
  next
    assume "\<exists>img. calls w' = calls w
            @ [Call_upload_emoji p n, Request (POST (emojis_url e) (authorization e) n img)]"
    then obtain img where "calls w' = calls w
            @ [Call_upload_emoji p n, Request (POST (emojis_url e) (authorization e) n img)]"
      by blast
    then have "filter is_post_event (calls w') = filter is_post_event (calls w)
        @ [Request (POST (emojis_url e) (authorization e) n img)]"
      by simp
    moreover have "create_requests e {n} [Request (POST (emojis_url e) (authorization e) n img)]"
      by (simp add: create_requests_def)
    ultimately show ?thesis by blast
  qed
qed

lemma process_local_post_events:
  assumes "process_local e (n, fi) st = Inr st1"
  shows "\<exists>ps. filter is_post_event (calls (outside st1))
              = filter is_post_event (calls (outside st)) @ ps
           \<and> create_requests e ({n} - set (keys (existing_emojis st))) ps"
proof (cases "n \<in> set (keys (existing_emojis st))")
  case True
  with assms have "st1 = st\<lparr>skipped_count := skipped_count st + 1\<rparr>"
    by (simp add: process_local_skip)
  then have "filter is_post_event (calls (outside st1))
      = filter is_post_event (calls (outside st)) @ []" by simp
  with create_requests_Nil show ?thesis by blast
next
  case False
  with assms obtain success message emoji_data w where
    up: "upload_emoji e (path fi) n (outside st) = Inr ((success, message, emoji_data), w)"
    by (auto simp: process_local_def Let_def split: sum.splits)
  from assms False up
  have "filter is_post_event (calls (outside st1)) = filter is_post_event (calls w)"
    by (auto simp: process_local_def Let_def record_failure_def record_event_def
        split: option.splits json_value.splits if_splits)
  moreover from False have "{n} - set (keys (existing_emojis st)) = {n}" by blast
  ultimately show ?thesis using upload_emoji_post_events[OF up] by simp
qed

lemma upload_pass_post_events:
  assumes "upload_pass e L st = Inr st'"
  shows "\<exists>ps. filter is_post_event (calls (outside st'))
              = filter is_post_event (calls (outside st)) @ ps
           \<and> create_requests e (set (keys L) - set (keys (existing_emojis st))) ps"
  using assms
proof (induction L arbitrary: st)
  case Nil
  then have "filter is_post_event (calls (outside st'))
      = filter is_post_event (calls (outside st)) @ []" by simp
  with create_requests_Nil show ?case by blast
next
  case (Cons item L)
  obtain n fi where item: "item = (n, fi)" by (cases item) auto
  from Cons.prems[unfolded item] obtain st1 where s1: "process_local e (n, fi) st = Inr st1"
    and rest: "upload_pass e L st1 = Inr st'"
    by (rule upload_pass_Cons)
  let ?A = "set (keys (item # L)) - set (keys (existing_emojis st))"
  from process_local_post_events[OF s1] obtain ps1 where
    a: "filter is_post_event (calls (outside st1)) = filter is_post_event (calls (outside st)) @ ps1"
    and a': "create_requests e ({n} - set (keys (existing_emojis st))) ps1"
    by blast
  from Cons.IH[OF rest] obtain ps2 where
    b: "filter is_post_event (calls (outside st')) = filter is_post_event (calls (outside st1)) @ ps2"
    and b': "create_requests e (set (keys L) - set (keys (existing_emojis st1))) ps2"
    by blast
  have "{n} - set (keys (existing_emojis st)) \<subseteq> ?A"
    by (auto simp: item keys_Cons)
  with a' have c1: "create_requests e ?A ps1" by (rule create_requests_mono)
  have "set (keys L) - set (keys (existing_emojis st1)) \<subseteq> ?A"
    using process_local_step(5)[OF s1] by (auto simp: item keys_Cons)
  with b' have c2: "create_requests e ?A ps2" by (rule create_requests_mono)
  from a b have "filter is_post_event (calls (outside st'))
      = filter is_post_event (calls (outside st)) @ (ps1 @ ps2)" by simp
  with create_requests_append[OF c1 c2] show ?case by blast
qed

lemma delete_emoji_post_events:
  assumes "delete_emoji e i n w = Inr (r, w')"
  shows "filter is_post_event (calls w') = filter is_post_event (calls w)"
  using delete_emoji_calls[OF assms] by auto

lemma process_delete_post_events:
  assumes "process_delete e n st = Inr st1"
  shows "filter is_post_event (calls (outside st1)) = filter is_post_event (calls (outside st))"
proof -
  from assms obtain info success message w where
    look: "map_of (existing_emojis st) n = Some info"
    and del: "delete_emoji e (info_id info) n (outside st) = Inr ((success, message), w)"
    by (auto simp: process_delete_def split: option.splits sum.splits)
  from assms look del
  have "filter is_post_event (calls (outside st1)) = filter is_post_event (calls w)"
    by (auto simp: process_delete_def record_failure_def record_event_def split: if_splits)
  with delete_emoji_post_events[OF del] show ?thesis by simp
qed

lemma delete_pass_post_events:
  assumes "delete_pass e ns st = Inr st'"
  shows "filter is_post_event (calls (outside st')) = filter is_post_event (calls (outside st))"
  using assms
proof (induction ns arbitrary: st)
  case Nil
  then show ?case by simp
next
  case (Cons n ns)
  from Cons.prems obtain st1 where s1: "process_delete e n st = Inr st1"
    and rest: "delete_pass e ns st1 = Inr st'"
    by (rule delete_pass_Cons)
  from Cons.IH[OF rest] process_delete_post_events[OF s1] show ?case by simp
qed

lemma reconcile_post_events:
  assumes "reconcile e L st = Inr st'"
  shows "\<exists>ps. filter is_post_event (calls (outside st'))
              = filter is_post_event (calls (outside st)) @ ps
           \<and> create_requests e (set (keys L) - set (keys (existing_emojis st))) ps"
proof -
  from assms obtain sa where p1: "upload_pass e L st = Inr sa"
    and p2: "delete_pass e (emojis_to_delete e (existing_emojis sa) L) sa = Inr st'"
    by (rule reconcile_split)
  from upload_pass_post_events[OF p1] delete_pass_post_events[OF p2] show ?thesis by simp
qed

text \<open>
  C1, as the code has it. Let the run over the local inventory \<open>L\<close> and the remote
  inventory \<open>R\<close> complete. Every name in \<open>L\<close> and not in \<open>R\<close> had exactly one upload attempt
  (one invocation of \<open>upload_emoji\<close>) and no deletion; the attempt sent exactly one Create
  (POST) request when the file has a supported format and, for a vector file, was
  rendered, and it sent none when the file is a vector file and cairosvg is not
  installed or the conversion fails. Every name in \<open>R\<close> and not in \<open>L\<close> had exactly one
  Delete call and no upload: the deletion events of the run are, for each of these names
  once, the call of \<open>delete_emoji\<close> with the id that \<open>R\<close> has for the name, followed by
  the DELETE request for this id, and nothing else. Every POST request of the run is a
  Create request of the application for a name in \<open>L\<close> and not in \<open>R\<close>. For a name in both there was no
  upload attempt, no POST request, no deletion, its entry is unchanged, and the skipped
  count is the number of these names.
\<close>

theorem reconcile_requests:
  assumes "distinct (keys L)" and "reconcile e L (start R w) = Inr st'"
  shows "(\<forall>n \<in> set (keys L) - set (keys R).
            uploads_of n (calls (outside st')) = uploads_of n (calls w) + 1
          \<and> deletes_of n (calls (outside st')) = deletes_of n (calls w)
          \<and> posts_of n (calls w) \<le> posts_of n (calls (outside st'))
          \<and> posts_of n (calls (outside st')) \<le> posts_of n (calls w) + 1
          \<and> (\<forall>fi. map_of L n = Some fi \<longrightarrow>
                (lower (suffix (path fi)) = ''.svg''
                   \<and> (\<not> SVG_SUPPORT e \<or> svg2png e (path fi) = None
                        \<or> (\<forall>tr. \<not> truthy (mktemp e tr)))
                 \<longrightarrow> posts_of n (calls (outside st')) = posts_of n (calls w))
              \<and> (lower (suffix (path fi)) \<in> set SUPPORTED_FORMATS
                   \<and> (lower (suffix (path fi)) = ''.svg'' \<longrightarrow>
                         SVG_SUPPORT e \<and> svg2png e (path fi) \<noteq> None
                         \<and> (\<forall>tr. truthy (mktemp e tr)))
                 \<longrightarrow> posts_of n (calls (outside st')) = posts_of n (calls w) + 1)))
       \<and> (\<forall>n \<in> set (keys R) - set (keys L).
            deletes_of n (calls (outside st')) = deletes_of n (calls w) + 1
          \<and> uploads_of n (calls (outside st')) = uploads_of n (calls w)
          \<and> posts_of n (calls (outside st')) = posts_of n (calls w))
       \<and> (\<exists>ns. distinct ns \<and> set ns = set (keys R) - set (keys L)
             \<and> filter is_delete_event (calls (outside st'))
               = filter is_delete_event (calls w) @ concat (map (delete_events e R) ns))
       \<and> (\<exists>ps. filter is_post_event (calls (outside st'))
               = filter is_post_event (calls w) @ ps
             \<and> create_requests e (set (keys L) - set (keys R)) ps)
       \<and> (\<forall>n \<in> set (keys L) \<inter> set (keys R).
            uploads_of n (calls (outside st')) = uploads_of n (calls w)
          \<and> posts_of n (calls (outside st')) = posts_of n (calls w)
          \<and> deletes_of n (calls (outside st')) = deletes_of n (calls w)
          \<and> map_of (existing_emojis st') n = map_of R n)
       \<and> skipped_count st' = card (set (keys L) \<inter> set (keys R))"
proof -
  note c = reconcile_counts[OF assms, unfolded start_fields]
  note px = reconcile_posts_exact[OF assms, unfolded start_fields]
  have a: "\<forall>n \<in> set (keys L) - set (keys R).
            uploads_of n (calls (outside st')) = uploads_of n (calls w) + 1
          \<and> deletes_of n (calls (outside st')) = deletes_of n (calls w)
          \<and> posts_of n (calls w) \<le> posts_of n (calls (outside st'))
          \<and> posts_of n (calls (outside st')) \<le> posts_of n (calls w) + 1
          \<and> (\<forall>fi. map_of L n = Some fi \<longrightarrow>
                (lower (suffix (path fi)) = ''.svg''
                   \<and> (\<not> SVG_SUPPORT e \<or> svg2png e (path fi) = None
                        \<or> (\<forall>tr. \<not> truthy (mktemp e tr)))
                 \<longrightarrow> posts_of n (calls (outside st')) = posts_of n (calls w))
              \<and> (lower (suffix (path fi)) \<in> set SUPPORTED_FORMATS
                   \<and> (lower (suffix (path fi)) = ''.svg'' \<longrightarrow>
                         SVG_SUPPORT e \<and> svg2png e (path fi) \<noteq> None
                         \<and> (\<forall>tr. truthy (mktemp e tr)))
                 \<longrightarrow> posts_of n (calls (outside st')) = posts_of n (calls w) + 1))"
  proof (intro ballI conjI allI impI)
    fix n assume n: "n \<in> set (keys L) - set (keys R)"
    from n c(1)[of n] show "uploads_of n (calls (outside st')) = uploads_of n (calls w) + 1"
      by simp
    from n c(2)[of n] show "deletes_of n (calls (outside st')) = deletes_of n (calls w)"
      by simp
    from c(3)[of n] show "posts_of n (calls w) \<le> posts_of n (calls (outside st'))" by simp
    from n c(3)[of n] show "posts_of n (calls (outside st')) \<le> posts_of n (calls w) + 1"
      by simp
  next
    fix n fi
    assume n: "n \<in> set (keys L) - set (keys R)" and m: "map_of L n = Some fi"
      and cond: "lower (suffix (path fi)) = ''.svg''
                   \<and> (\<not> SVG_SUPPORT e \<or> svg2png e (path fi) = None
                        \<or> (\<forall>tr. \<not> truthy (mktemp e tr)))"
    from n have "n \<notin> set (keys R)" by simp
    from px(1)[OF m this cond]
    show "posts_of n (calls (outside st')) = posts_of n (calls w)" .
  next
    fix n fi
    assume n: "n \<in> set (keys L) - set (keys R)" and m: "map_of L n = Some fi"
      and cond: "lower (suffix (path fi)) \<in> set SUPPORTED_FORMATS
                   \<and> (lower (suffix (path fi)) = ''.svg'' \<longrightarrow>
                         SVG_SUPPORT e \<and> svg2png e (path fi) \<noteq> None
                         \<and> (\<forall>tr. truthy (mktemp e tr)))"
    from n have "n \<notin> set (keys R)" by simp
    from px(2)[OF m this cond]
    show "posts_of n (calls (outside st')) = posts_of n (calls w) + 1" .
  qed
  have b: "\<forall>n \<in> set (keys R) - set (keys L).
            deletes_of n (calls (outside st')) = deletes_of n (calls w) + 1
          \<and> uploads_of n (calls (outside st')) = uploads_of n (calls w)
          \<and> posts_of n (calls (outside st')) = posts_of n (calls w)"
  proof
    fix n assume "n \<in> set (keys R) - set (keys L)"
    with c(1)[of n] c(2)[of n] c(3)[of n]
    show "deletes_of n (calls (outside st')) = deletes_of n (calls w) + 1
          \<and> uploads_of n (calls (outside st')) = uploads_of n (calls w)
          \<and> posts_of n (calls (outside st')) = posts_of n (calls w)"
      by simp
  qed
  have ev: "\<exists>ns. distinct ns \<and> set ns = set (keys R) - set (keys L)
             \<and> filter is_delete_event (calls (outside st'))
               = filter is_delete_event (calls w) @ concat (map (delete_events e R) ns)"
    using reconcile_delete_events[OF assms(2)] by (simp add: start_fields)
  have pe: "\<exists>ps. filter is_post_event (calls (outside st'))
               = filter is_post_event (calls w) @ ps
             \<and> create_requests e (set (keys L) - set (keys R)) ps"
    using reconcile_post_events[OF assms(2)] by (simp add: start_fields)
  have p: "posts_of n (calls (outside st')) = posts_of n (calls w)"
    if "n \<in> set (keys L) \<inter> set (keys R)" for n
    using that c(3)[of n] by simp
  have d: "\<forall>n \<in> set (keys L) \<inter> set (keys R).
            uploads_of n (calls (outside st')) = uploads_of n (calls w)
          \<and> posts_of n (calls (outside st')) = posts_of n (calls w)
          \<and> deletes_of n (calls (outside st')) = deletes_of n (calls w)
          \<and> map_of (existing_emojis st') n = map_of R n"
    using c(1) c(2) c(5) p by simp
  have s: "skipped_count st' = card (set (keys L) \<inter> set (keys R))"
    using c(4) length_filter_card[OF assms(1), of "set (keys R)"] by simp
  show ?thesis
    apply (intro conjI)
         apply (rule a)
        apply (rule b)
       apply (rule ev)
      apply (rule pe)
     apply (rule d)
    apply (rule s)
    done
qed

theorem reconcile_requests_witness:
  "\<exists>st'. reconcile example_env example_local (start example_remote \<lparr>calls = [], tmp = []\<rparr>) = Inr st'
     \<and> uploads_of ''wave'' (calls (outside st')) = 1
     \<and> posts_of ''wave'' (calls (outside st')) = 1
     \<and> filter is_delete_event (calls (outside st'))
         = [Call_delete_emoji ''123'' ''old'',
            Request (DELETE ''https://discord.com/api/v10/applications/42/emojis/123''
                       ''Bot token'')]
     \<and> uploads_of ''smile'' (calls (outside st')) = 0
     \<and> posts_of ''smile'' (calls (outside st')) = 0
     \<and> deletes_of ''smile'' (calls (outside st')) = 0
     \<and> map_of (existing_emojis st') ''smile'' = Some \<lparr>info_id = ''77'', info_animated = False\<rparr>
     \<and> skipped_count st' = 1"
proof -
  let ?w = "\<lparr>calls = [], tmp = []\<rparr>"
  let ?fi = "\<lparr>path = ''emojis/sub/wave.GIF'', relative_path = ''sub/wave.GIF''\<rparr>"
  have d: "distinct (keys example_local)"
    by (simp add: example_local_def keys_def)
  have "\<not> isl (reconcile example_env example_local (start example_remote ?w))"
    by code_simp
  then obtain st' where
    run: "reconcile example_env example_local (start example_remote ?w) = Inr st'"
    by (cases "reconcile example_env example_local (start example_remote ?w)") auto
  have kl: "set (keys example_local) = {''smile'', ''wave''}"
    and kr: "set (keys example_remote) = {''old'', ''smile''}"
    by (auto simp: example_local_def example_remote_def keys_def)
  have mw: "''wave'' \<in> set (keys example_local) - set (keys example_remote)"
    and ms: "''smile'' \<in> set (keys example_local) \<inter> set (keys example_remote)"
    unfolding kl kr by simp_all
  have rl: "set (keys example_remote) - set (keys example_local) = {''old''}"
    unfolding kl kr by auto
  have i: "set (keys example_local) \<inter> set (keys example_remote) = {''smile''}"
    unfolding kl kr by auto
  have z: "uploads_of n (calls ?w) = 0" "posts_of n (calls ?w) = 0" "deletes_of n (calls ?w) = 0"
    "filter is_delete_event (calls ?w) = []" for n
    by (simp_all add: uploads_of_def posts_of_def deletes_of_def)
  note t = reconcile_requests [OF d run]
  note tA = t[THEN conjunct1, THEN bspec, OF mw]
  note tEV = t[THEN conjunct2, THEN conjunct2, THEN conjunct1]
  note tD = t[THEN conjunct2, THEN conjunct2, THEN conjunct2, THEN conjunct2, THEN conjunct1,
      THEN bspec, OF ms]
  note tS = t[THEN conjunct2, THEN conjunct2, THEN conjunct2, THEN conjunct2, THEN conjunct2]
  from tA have 1: "uploads_of ''wave'' (calls (outside st')) = 1"
    unfolding z by simp
  have wave: "map_of example_local ''wave'' = Some ?fi"
    by (simp add: example_local_def)
  have ext: "lower (suffix (path ?fi)) = ''.gif''"
    by (simp add: lower_def suffix_def path_name_def rfind_def lower_char_def)
  have cond: "lower (suffix (path ?fi)) \<in> set SUPPORTED_FORMATS
                   \<and> (lower (suffix (path ?fi)) = ''.svg'' \<longrightarrow>
                         SVG_SUPPORT example_env \<and> svg2png example_env (path ?fi) \<noteq> None
                         \<and> (\<forall>tr. truthy (mktemp example_env tr)))"
    unfolding ext by (simp add: SUPPORTED_FORMATS_def)
  from tA have "\<forall>fi. map_of example_local ''wave'' = Some fi \<longrightarrow>
                (lower (suffix (path fi)) = ''.svg''
                   \<and> (\<not> SVG_SUPPORT example_env \<or> svg2png example_env (path fi) = None
                        \<or> (\<forall>tr. \<not> truthy (mktemp example_env tr)))
                 \<longrightarrow> posts_of ''wave'' (calls (outside st')) = posts_of ''wave'' (calls ?w))
              \<and> (lower (suffix (path fi)) \<in> set SUPPORTED_FORMATS
                   \<and> (lower (suffix (path fi)) = ''.svg'' \<longrightarrow>
                         SVG_SUPPORT example_env \<and> svg2png example_env (path fi) \<noteq> None
                         \<and> (\<forall>tr. truthy (mktemp example_env tr)))
                 \<longrightarrow> posts_of ''wave'' (calls (outside st')) = posts_of ''wave'' (calls ?w) + 1)"
    by blast
  from this[THEN spec, of ?fi, THEN mp, OF wave, THEN conjunct2, THEN mp, OF cond]
  have 2: "posts_of ''wave'' (calls (outside st')) = 1"
    unfolding z by simp
  from tEV obtain ns where ns: "distinct ns" "set ns = {''old''}"
    and ev: "filter is_delete_event (calls (outside st'))
               = filter is_delete_event (calls ?w)
                 @ concat (map (delete_events example_env example_remote) ns)"
    unfolding rl by blast
  from ns have "ns = [''old'']"
  proof (cases ns)
    case Nil
    with ns show ?thesis by simp
  next
    case (Cons a as)
    with ns have "a = ''old''" "set as \<subseteq> {''old''}" "a \<notin> set as" by auto
    then have "as = []" by (cases as) auto
    with Cons \<open>a = ''old''\<close> show ?thesis by simp
  qed
  with ev have 3: "filter is_delete_event (calls (outside st'))
         = [Call_delete_emoji ''123'' ''old'',
            Request (DELETE ''https://discord.com/api/v10/applications/42/emojis/123''
                       ''Bot token'')]"
    unfolding z
    by (simp add: delete_events_def example_remote_def emojis_url_def authorization_def
        example_env_def)
  from tD have 4: "uploads_of ''smile'' (calls (outside st')) = 0"
    "posts_of ''smile'' (calls (outside st')) = 0"
    "deletes_of ''smile'' (calls (outside st')) = 0"
    "map_of (existing_emojis st') ''smile'' = Some \<lparr>info_id = ''77'', info_animated = False\<rparr>"
    unfolding z by (simp_all add: example_remote_def)
  from tS have 5: "skipped_count st' = 1" unfolding i by simp
  from run 1 2 3 4 5 show ?thesis by blast
qed

text \<open>
  C1 as it is stated fails: with cairosvg not installed, the run over the one local file
  \<open>icon.svg\<close> and an empty remote inventory completes, and its whole log is the invocation
  of \<open>upload_emoji\<close>: no Create (POST) request was made for the name \<open>icon\<close>, which is
  local and not remote.
\<close>

theorem reconcile_counterexample:
  "reconcile (example_env\<lparr>SVG_SUPPORT := False\<rparr>)
     [(''icon'', \<lparr>path = ''emojis/icon.svg'', relative_path = ''icon.svg''\<rparr>)]
     (start [] \<lparr>calls = [], tmp = []\<rparr>)
   = Inr ((start [] \<lparr>calls = [Call_upload_emoji ''emojis/icon.svg'' ''icon''], tmp = []\<rparr>)
            \<lparr>error_count := 1\<rparr>)
   \<and> posts_of ''icon'' [Call_upload_emoji ''emojis/icon.svg'' ''icon''] = 0"
proof -
  have h1: "lower (suffix ''emojis/icon.svg'') = ''.svg''"
    by (simp add: lower_def suffix_def path_name_def rfind_def lower_char_def)
  have up: "upload_emoji (example_env\<lparr>SVG_SUPPORT := False\<rparr>) ''emojis/icon.svg'' ''icon''
      \<lparr>calls = [], tmp = []\<rparr>
    = Inr ((False, ''SVG support not available (cairosvg not installed)'', None),
           \<lparr>calls = [Call_upload_emoji ''emojis/icon.svg'' ''icon''], tmp = []\<rparr>)"
    using h1 by (simp add: upload_emoji_def prepare_svg_def record_event_def)
  have n: "\<not> contains ''429'' ''SVG support not available (cairosvg not installed)''"
    by simp
  have pl: "process_local (example_env\<lparr>SVG_SUPPORT := False\<rparr>)
      (''icon'', \<lparr>path = ''emojis/icon.svg'', relative_path = ''icon.svg''\<rparr>)
      (start [] \<lparr>calls = [], tmp = []\<rparr>)
    = Inr ((start [] \<lparr>calls = [Call_upload_emoji ''emojis/icon.svg'' ''icon''], tmp = []\<rparr>)
            \<lparr>error_count := 1\<rparr>)"
    using up n by (simp add: process_local_def record_failure_def start_def keys_def)
  have del: "emojis_to_delete (example_env\<lparr>SVG_SUPPORT := False\<rparr>) []
      [(''icon'', \<lparr>path = ''emojis/icon.svg'', relative_path = ''icon.svg''\<rparr>)] = []"
    by (simp add: emojis_to_delete_def keys_def)
  have "reconcile (example_env\<lparr>SVG_SUPPORT := False\<rparr>)
     [(''icon'', \<lparr>path = ''emojis/icon.svg'', relative_path = ''icon.svg''\<rparr>)]
     (start [] \<lparr>calls = [], tmp = []\<rparr>)
   = Inr ((start [] \<lparr>calls = [Call_upload_emoji ''emojis/icon.svg'' ''icon''], tmp = []\<rparr>)
            \<lparr>error_count := 1\<rparr>)"
    using pl del by (simp add: reconcile_def start_def)
  moreover have "posts_of ''icon'' [Call_upload_emoji ''emojis/icon.svg'' ''icon''] = 0"
    by (simp add: posts_of_def)
  ultimately show ?thesis by blast
qed

subsection \<open>The report\<close>

text \<open>The writer never fails, and its file is the header, one line for each name, the trailer.\<close>

lemma write_entries_lines:
  "set ns \<subseteq> set (keys d) \<Longrightarrow>
   write_entries d ns f = Inr (f @ map (\<lambda>n. report_line n (the (map_of d n))) ns)"
proof (induction ns arbitrary: f)
  case Nil
  then show ?case by simp
next
  case (Cons n ns)
  from Cons.prems have "n \<in> fst ` set d" by (simp add: keys_def)
  then have "map_of d n \<noteq> None" by (simp add: map_of_eq_None_iff)
  then obtain info where i: "map_of d n = Some info" by auto
  from Cons.prems have "set ns \<subseteq> set (keys d)" by simp
  from Cons.IH[OF this] i show ?case by (simp add: Let_def)
qed

lemma write_emoji_codes_lines:
  assumes "report_writable e" and "now e = Some t"
  shows "write_emoji_codes e d l w =
     Inr ([''Discord Application Emoji Codes\<newline>'',
           ''Total emojis: '' @ str_nat (length d) @ ''\<newline>'',
           replicate 60 CHR ''='' @ ''\<newline>\<newline>'']
          @ map (\<lambda>n. report_line n (the (map_of d n))) (sort (keys d))
          @ [''\<newline>Last updated on: '' @ t @ ''\<newline>''],
          record_event
            (Write_file (EMOJI_CODES_FILE e)
               (concat ([''Discord Application Emoji Codes\<newline>'',
                         ''Total emojis: '' @ str_nat (length d) @ ''\<newline>'',
                         replicate 60 CHR ''='' @ ''\<newline>\<newline>'']
                        @ map (\<lambda>n. report_line n (the (map_of d n))) (sort (keys d))
                        @ [''\<newline>Last updated on: '' @ t @ ''\<newline>''])))
            w)"
proof -
  have "set (sort (keys d)) \<subseteq> set (keys d)" by simp
  from write_entries_lines[OF this] assms show ?thesis
    by (simp add: write_emoji_codes_def Let_def)
qed

text \<open>The writer returns exactly when the file can be written and the zone is found.\<close>

lemma write_emoji_codes_returns:
  "(\<exists>f w'. write_emoji_codes e d l w = Inr (f, w')) \<longleftrightarrow> report_writable e \<and> now e \<noteq> None"
proof
  assume "\<exists>f w'. write_emoji_codes e d l w = Inr (f, w')"
  then show "report_writable e \<and> now e \<noteq> None"
    by (auto simp: write_emoji_codes_def Let_def split: if_splits sum.splits option.splits)
next
  assume a: "report_writable e \<and> now e \<noteq> None"
  then obtain t where "now e = Some t" by auto
  with a write_emoji_codes_lines[of e t d l w]
  show "\<exists>f w'. write_emoji_codes e d l w = Inr (f, w')" by blast
qed

text \<open>
  C3. The report is written exactly when the file can be opened and the time zone is
  found. Whenever it is written, for every inventory (a dictionary, so its names are
  distinct), it consists of the three header strings, one line for each pair of a list
  \<open>ps\<close>, and the trailer, where \<open>ps\<close> has exactly the entries of the inventory, so that the
  names written are exactly its keys, each once, and they are in ascending lexicographic
  order. Every line begins with its name.
\<close>

theorem report_round_trip:
  assumes "distinct (keys d)"
  shows "((\<exists>f w'. write_emoji_codes e d l w = Inr (f, w'))
            \<longleftrightarrow> report_writable e \<and> now e \<noteq> None)
       \<and> (\<forall>t. report_writable e \<and> now e = Some t \<longrightarrow>
            (\<exists>f w' ps.
               write_emoji_codes e d l w = Inr (f, w')
             \<and> w' = w\<lparr>calls := calls w @ [Write_file (EMOJI_CODES_FILE e) (concat f)]\<rparr>
             \<and> f = [''Discord Application Emoji Codes\<newline>'',
                    ''Total emojis: '' @ str_nat (length d) @ ''\<newline>'',
                    replicate 60 CHR ''='' @ ''\<newline>\<newline>'']
                   @ map (\<lambda>(n, info). report_line n info) ps
                   @ [''\<newline>Last updated on: '' @ t @ ''\<newline>'']
             \<and> set ps = set d
             \<and> set (map fst ps) = set (keys d)
             \<and> sorted (map fst ps)
             \<and> distinct (map fst ps)
             \<and> (\<forall>(n, info) \<in> set ps. is_prefix n (report_line n info))))"
proof (intro conjI allI impI)
  show "(\<exists>f w'. write_emoji_codes e d l w = Inr (f, w'))
            \<longleftrightarrow> report_writable e \<and> now e \<noteq> None"
    by (rule write_emoji_codes_returns)
next
  fix t
  assume wt: "report_writable e \<and> now e = Some t"
  let ?ps = "map (\<lambda>n. (n, the (map_of d n))) (sort (keys d))"
  let ?f = "[''Discord Application Emoji Codes\<newline>'',
                ''Total emojis: '' @ str_nat (length d) @ ''\<newline>'',
                replicate 60 CHR ''='' @ ''\<newline>\<newline>'']
               @ map (\<lambda>(n, info). report_line n info) ?ps
               @ [''\<newline>Last updated on: '' @ t @ ''\<newline>'']"
  have m: "map (\<lambda>(n, info). report_line n info) ?ps
         = map (\<lambda>n. report_line n (the (map_of d n))) (sort (keys d))"
    by simp
  have fst: "map fst ?ps = sort (keys d)" by (simp add: comp_def)
  have sd: "set ?ps = set d"
  proof (intro set_eqI iffI)
    fix x assume "x \<in> set ?ps"
    then obtain n where n: "n \<in> set (keys d)" and x: "x = (n, the (map_of d n))" by auto
    from n obtain v where "(n, v) \<in> set d" by (auto simp: keys_def)
    with assms have "map_of d n = Some v" by (simp add: keys_def)
    with x \<open>(n, v) \<in> set d\<close> show "x \<in> set d" by simp
  next
    fix x assume xd: "x \<in> set d"
    obtain n v where x: "x = (n, v)" by (cases x) auto
    with xd assms have "map_of d n = Some v" by (simp add: keys_def)
    moreover from xd x have "n \<in> set (keys d)" by (force simp: keys_def)
    ultimately show "x \<in> set ?ps" using x by force
  qed
  have pre: "is_prefix n (n @ s)" for n s
    by (induction n) simp_all
  have p: "\<forall>(n, info) \<in> set ?ps. is_prefix n (report_line n info)"
    using pre by (auto simp: fmt30_def)
  have di: "distinct (map fst ?ps)" unfolding fst using assms by simp
  have so: "sorted (map fst ?ps)" unfolding fst by simp
  have se: "set (map fst ?ps) = set (keys d)" unfolding fst by simp
  from wt have wr: "write_emoji_codes e d l w
      = Inr (?f, w\<lparr>calls := calls w @ [Write_file (EMOJI_CODES_FILE e) (concat ?f)]\<rparr>)"
    by (simp only: m write_emoji_codes_lines record_event_def)
  show "\<exists>f w' ps.
               write_emoji_codes e d l w = Inr (f, w')
             \<and> w' = w\<lparr>calls := calls w @ [Write_file (EMOJI_CODES_FILE e) (concat f)]\<rparr>
             \<and> f = [''Discord Application Emoji Codes\<newline>'',
                    ''Total emojis: '' @ str_nat (length d) @ ''\<newline>'',
                    replicate 60 CHR ''='' @ ''\<newline>\<newline>'']
                   @ map (\<lambda>(n, info). report_line n info) ps
                   @ [''\<newline>Last updated on: '' @ t @ ''\<newline>'']
             \<and> set ps = set d
             \<and> set (map fst ps) = set (keys d)
             \<and> sorted (map fst ps)
             \<and> distinct (map fst ps)
             \<and> (\<forall>(n, info) \<in> set ps. is_prefix n (report_line n info))"
    apply (rule exI[of _ ?f])
    apply (rule exI[of _ "w\<lparr>calls := calls w @ [Write_file (EMOJI_CODES_FILE e) (concat ?f)]\<rparr>"])
    apply (rule exI[of _ ?ps])
    apply (intro conjI)
           apply (rule wr)
          apply (rule refl)
         apply (rule refl)
        apply (rule sd)
       apply (rule se)
      apply (rule so)
     apply (rule di)
    apply (rule p)
    done
qed

theorem report_round_trip_witness:
  "distinct (keys example_remote)
   \<and> (\<exists>f w' ps.
        write_emoji_codes example_env example_remote example_local \<lparr>calls = [], tmp = []\<rparr>
          = Inr (f, w')
      \<and> f = [''Discord Application Emoji Codes\<newline>'',
             ''Total emojis: '' @ str_nat (length example_remote) @ ''\<newline>'',
             replicate 60 CHR ''='' @ ''\<newline>\<newline>'']
            @ map (\<lambda>(n, info). report_line n info) ps
            @ [''\<newline>Last updated on: 2025-01-01 00:00:00 EST\<newline>'']
      \<and> set ps = set example_remote
      \<and> set (map fst ps) = set (keys example_remote)
      \<and> sorted (map fst ps))"
proof -
  have h: "distinct (keys example_remote)"
    by (simp add: example_remote_def keys_def)
  have wt: "report_writable example_env \<and> now example_env = Some ''2025-01-01 00:00:00 EST''"
    by (simp add: example_env_def)
  from report_round_trip [OF h, of example_env example_local "\<lparr>calls = [], tmp = []\<rparr>"] wt
  have "\<exists>f w' ps.
        write_emoji_codes example_env example_remote example_local \<lparr>calls = [], tmp = []\<rparr>
          = Inr (f, w')
      \<and> w' = \<lparr>calls = [], tmp = []\<rparr>\<lparr>calls := calls \<lparr>calls = [], tmp = []\<rparr>
                @ [Write_file (EMOJI_CODES_FILE example_env) (concat f)]\<rparr>
      \<and> f = [''Discord Application Emoji Codes\<newline>'',
             ''Total emojis: '' @ str_nat (length example_remote) @ ''\<newline>'',
             replicate 60 CHR ''='' @ ''\<newline>\<newline>'']
            @ map (\<lambda>(n, info). report_line n info) ps
            @ [''\<newline>Last updated on: '' @ ''2025-01-01 00:00:00 EST'' @ ''\<newline>'']
      \<and> set ps = set example_remote
      \<and> set (map fst ps) = set (keys example_remote)
      \<and> sorted (map fst ps)
      \<and> distinct (map fst ps)
      \<and> (\<forall>(n, info) \<in> set ps. is_prefix n (report_line n info))"
    by blast
  then obtain f w' ps where
    "write_emoji_codes example_env example_remote example_local \<lparr>calls = [], tmp = []\<rparr>
          = Inr (f, w')"
    "f = [''Discord Application Emoji Codes\<newline>'',
             ''Total emojis: '' @ str_nat (length example_remote) @ ''\<newline>'',
             replicate 60 CHR ''='' @ ''\<newline>\<newline>'']
            @ map (\<lambda>(n, info). report_line n info) ps
            @ [''\<newline>Last updated on: '' @ ''2025-01-01 00:00:00 EST'' @ ''\<newline>'']"
    "set ps = set example_remote" "set (map fst ps) = set (keys example_remote)"
    "sorted (map fst ps)"
    by blast
  with h show ?thesis by (simp del: set_map) blast
qed

text \<open>
  C4, as the code has it. Whenever the report is written (that is, whenever the file can
  be opened and the time zone is found), for every emoji of the inventory it has the line
  made of the name, spaces after it up to 30 characters (the name is left-aligned, the
  padding is on its right, a longer name is not cut), one space, and the reference code,
  which is \<open><:name:id>\<close> for a still emoji and \<open><a:name:id>\<close> for an animated one.
\<close>

theorem report_line_format:
  assumes "map_of d n = Some info"
  shows "(\<forall>f w'. write_emoji_codes e d l w = Inr (f, w') \<longrightarrow>
            n @ replicate (30 - length n) CHR '' '' @ '' ''
              @ (if info_animated info then ''<a:'' else ''<:'') @ n @ '':'' @ info_id info
              @ ''>'' @ ''\<newline>''
            \<in> set f)
       \<and> (report_writable e \<and> now e \<noteq> None \<longrightarrow>
            (\<exists>f w'. write_emoji_codes e d l w = Inr (f, w')))"
proof (intro conjI allI impI)
  fix f w'
  assume wr: "write_emoji_codes e d l w = Inr (f, w')"
  let ?line = "n @ replicate (30 - length n) CHR '' '' @ '' ''
             @ (if info_animated info then ''<a:'' else ''<:'') @ n @ '':'' @ info_id info
             @ ''>'' @ ''\<newline>''"
  let ?lines = "map (\<lambda>n. report_line n (the (map_of d n))) (sort (keys d))"
  from wr write_emoji_codes_returns[of e d l w] obtain t where
    rw: "report_writable e" and nt: "now e = Some t"
    by blast
  from assms have "n \<in> set (sort (keys d))"
    by (auto simp: keys_def dest: map_of_SomeD intro: rev_image_eqI)
  then have "report_line n (the (map_of d n)) \<in> set ?lines"
    unfolding set_map by (rule imageI)
  moreover have "report_line n (the (map_of d n)) = ?line"
    using assms by (simp add: fmt30_def format_emoji_code_def)
  ultimately have mem: "?line \<in> set ?lines" by (simp only:)
  have "?line \<in> set (h @ ?lines @ t)" for h t
    using mem by (simp only: set_append Un_iff simp_thms)
  with wr show "?line \<in> set f"
    unfolding write_emoji_codes_lines[OF rw nt] by blast
next
  assume "report_writable e \<and> now e \<noteq> None"
  then show "\<exists>f w'. write_emoji_codes e d l w = Inr (f, w')"
    by (simp add: write_emoji_codes_returns)
qed

theorem report_line_format_witness:
  "\<exists>f w'. write_emoji_codes example_env example_remote example_local \<lparr>calls = [], tmp = []\<rparr>
            = Inr (f, w')
     \<and> ''smile                          <:smile:77>\<newline>'' \<in> set f"
proof -
  have h: "map_of example_remote ''smile'' = Some \<lparr>info_id = ''77'', info_animated = False\<rparr>"
    by (simp add: example_remote_def)
  have r: "replicate (30 - length ''smile'') CHR '' '' = ''                         ''"
    by code_simp
  have wt: "report_writable example_env \<and> now example_env \<noteq> None"
    by (simp add: example_env_def)
  from report_line_format [OF h, of example_env example_local "\<lparr>calls = [], tmp = []\<rparr>"] wt
  obtain f w' where
    wr: "write_emoji_codes example_env example_remote example_local \<lparr>calls = [], tmp = []\<rparr>
            = Inr (f, w')"
    by blast
  from report_line_format [OF h, of example_env example_local "\<lparr>calls = [], tmp = []\<rparr>"] wr
  have "''smile'' @ replicate (30 - length ''smile'') CHR '' '' @ '' ''
              @ (if info_animated \<lparr>info_id = ''77'', info_animated = False\<rparr> then ''<a:'' else ''<:'')
              @ ''smile'' @ '':'' @ info_id \<lparr>info_id = ''77'', info_animated = False\<rparr>
              @ ''>'' @ ''\<newline>''
            \<in> set f"
    by blast
  then have "''smile                          <:smile:77>\<newline>'' \<in> set f"
    unfolding r by simp
  with wr show ?thesis by blast
qed

text \<open>
  C4 as it is stated fails: the code of a still emoji begins with \<open><:\<close>, so the line of
  \<open>smile\<close> with the id 77 does not contain \<open><smile:77>\<close>, and the padding follows the name
  instead of preceding it.
\<close>

theorem report_line_counterexample:
  "format_emoji_code ''smile'' ''77'' False = ''<:smile:77>''
   \<and> format_emoji_code ''smile'' ''77'' False \<noteq> ''<smile:77>''
   \<and> write_entries [(''smile'', \<lparr>info_id = ''77'', info_animated = False\<rparr>)] [''smile''] []
       = Inr [''smile                          <:smile:77>\<newline>'']
   \<and> \<not> contains ''<smile:77>'' ''smile                          <:smile:77>\<newline>''
   \<and> \<not> is_prefix '' '' ''smile                          <:smile:77>\<newline>''"
  by (simp add: format_emoji_code_def fmt30_def eval_nat_numeral)

subsection \<open>Rate limiting\<close>

text \<open>A response with the status 429 gives a diagnostic that contains 429.\<close>

lemma status_429_message: "contains ''429'' (str_int 429 @ '' - '' @ t)"
  by (simp add: str_int_def str_nat.simps digit_char_def)

text \<open>
  C9. Let an upload or a deletion fail with a diagnostic that contains \<open>429\<close>. The step
  adds one to the error count and appends one pause of 5 to the log of the failed call,
  changes nothing else (the inventory and the other counts stay), and the loop goes on
  with the remaining items from that state. No name has more than one upload attempt or
  more than one delete attempt in a run, so the failed item is not tried again.
\<close>

theorem rate_limited_failure:
  assumes "contains ''429'' message"
  shows "(emoji_name \<notin> set (keys (existing_emojis st)) \<longrightarrow>
          upload_emoji e (path file_info) emoji_name (outside st)
            = Inr ((False, message, emoji_data), w) \<longrightarrow>
            process_local e (emoji_name, file_info) st
              = Inr (st\<lparr>outside := w\<lparr>calls := calls w @ [Sleep 5]\<rparr>,
                        error_count := error_count st + 1\<rparr>)
          \<and> upload_pass e ((emoji_name, file_info) # items) st
              = upload_pass e items (st\<lparr>outside := w\<lparr>calls := calls w @ [Sleep 5]\<rparr>,
                                        error_count := error_count st + 1\<rparr>))
       \<and> (map_of (existing_emojis st) emoji_name = Some emoji_info \<longrightarrow>
          delete_emoji e (info_id emoji_info) emoji_name (outside st)
            = Inr ((False, message), w) \<longrightarrow>
            process_delete e emoji_name st
              = Inr (st\<lparr>outside := w\<lparr>calls := calls w @ [Sleep 5]\<rparr>,
                        error_count := error_count st + 1\<rparr>)
          \<and> delete_pass e (emoji_name # names) st
              = delete_pass e names (st\<lparr>outside := w\<lparr>calls := calls w @ [Sleep 5]\<rparr>,
                                        error_count := error_count st + 1\<rparr>))
       \<and> (distinct (keys L) \<longrightarrow> reconcile e L st = Inr st' \<longrightarrow>
            uploads_of emoji_name (calls (outside st'))
              \<le> uploads_of emoji_name (calls (outside st)) + 1
          \<and> deletes_of emoji_name (calls (outside st'))
              \<le> deletes_of emoji_name (calls (outside st)) + 1)"
proof -
  let ?st = "st\<lparr>outside := w\<lparr>calls := calls w @ [Sleep 5]\<rparr>, error_count := error_count st + 1\<rparr>"
  have f: "record_failure message w st = ?st"
    using assms by (simp add: record_failure_def record_event_def)
  have a: "process_local e (emoji_name, file_info) st = Inr ?st"
    if "emoji_name \<notin> set (keys (existing_emojis st))"
      "upload_emoji e (path file_info) emoji_name (outside st) = Inr ((False, message, emoji_data), w)"
    using that f by (simp add: process_local_def)
  have b: "process_delete e emoji_name st = Inr ?st"
    if "map_of (existing_emojis st) emoji_name = Some emoji_info"
      "delete_emoji e (info_id emoji_info) emoji_name (outside st) = Inr ((False, message), w)"
    using that f by (simp add: process_delete_def)
  have c: "uploads_of emoji_name (calls (outside st'))
              \<le> uploads_of emoji_name (calls (outside st)) + 1
          \<and> deletes_of emoji_name (calls (outside st'))
              \<le> deletes_of emoji_name (calls (outside st)) + 1"
    if "distinct (keys L)" "reconcile e L st = Inr st'"
    using reconcile_counts(1,2)[OF that, of emoji_name] by simp
  from a b c show ?thesis by simp
qed

theorem rate_limited_failure_witness:
  "process_local (example_env\<lparr>http := rate_limited_http\<rparr>)
     (''smile'', \<lparr>path = ''emojis/smile.png'', relative_path = ''smile.png''\<rparr>)
     (start [] \<lparr>calls = [], tmp = []\<rparr>)
   = Inr ((start []
            \<lparr>calls = [Call_upload_emoji ''emojis/smile.png'' ''smile'',
                      Request (POST ''https://discord.com/api/v10/applications/42/emojis''
                                 ''Bot token'' ''smile'' ''data:image/png;base64,YWJj''),
                      Sleep 5],
             tmp = []\<rparr>)\<lparr>error_count := 1\<rparr>)"
proof -
  let ?e = "example_env\<lparr>http := rate_limited_http\<rparr>"
  let ?fi = "\<lparr>path = ''emojis/smile.png'', relative_path = ''smile.png''\<rparr>"
  let ?w = "\<lparr>calls = [Call_upload_emoji ''emojis/smile.png'' ''smile'',
                      Request (POST ''https://discord.com/api/v10/applications/42/emojis''
                                 ''Bot token'' ''smile'' ''data:image/png;base64,YWJj'')],
             tmp = []\<rparr>"
  have h1: "contains ''429'' ''429 - slow down''" by simp
  have h2: "''smile'' \<notin> set (keys (existing_emojis (start [] \<lparr>calls = [], tmp = []\<rparr>)))"
    by (simp add: start_def keys_def)
  have h3: "upload_emoji ?e (path ?fi) ''smile'' (outside (start [] \<lparr>calls = [], tmp = []\<rparr>))
      = Inr ((False, ''429 - slow down'', None), ?w)"
    by code_simp
  from rate_limited_failure [OF h1, of "''smile''" "start [] \<lparr>calls = [], tmp = []\<rparr>" ?e ?fi None ?w]
    h2 h3
  show ?thesis by (simp add: start_def)
qed

subsection \<open>Vector files\<close>

text \<open>
  C7. For a file whose lower-cased suffix is \<open>.svg\<close>, when cairosvg is not installed,
  \<open>upload_emoji\<close> returns at once the failure whose message says that SVG support is not
  available: the log gains the call and nothing else (no POST request), no scratch file
  is made, and in the first pass the error count grows by one, with no pause.
\<close>

theorem svg_without_support:
  assumes "lower (suffix file_path) = ''.svg''" and "\<not> SVG_SUPPORT e"
  shows "upload_emoji e file_path emoji_name w =
           Inr ((False, ''SVG support not available (cairosvg not installed)'', None),
                w\<lparr>calls := calls w @ [Call_upload_emoji file_path emoji_name]\<rparr>)
       \<and> contains ''not available'' ''SVG support not available (cairosvg not installed)''
       \<and> (emoji_name \<notin> set (keys (existing_emojis st)) \<longrightarrow> path file_info = file_path \<longrightarrow>
            process_local e (emoji_name, file_info) st =
              Inr (st\<lparr>outside := (outside st)\<lparr>calls := calls (outside st)
                                       @ [Call_upload_emoji file_path emoji_name]\<rparr>,
                      error_count := error_count st + 1\<rparr>))"
proof -
  have up: "upload_emoji e file_path emoji_name w =
           Inr ((False, ''SVG support not available (cairosvg not installed)'', None),
                w\<lparr>calls := calls w @ [Call_upload_emoji file_path emoji_name]\<rparr>)" for w
    using assms by (simp add: upload_emoji_def prepare_svg_def record_event_def)
  have c: "contains ''not available'' ''SVG support not available (cairosvg not installed)''"
    by simp
  have n: "\<not> contains ''429'' ''SVG support not available (cairosvg not installed)''"
    by simp
  have "process_local e (emoji_name, file_info) st =
              Inr (st\<lparr>outside := (outside st)\<lparr>calls := calls (outside st)
                                       @ [Call_upload_emoji file_path emoji_name]\<rparr>,
                      error_count := error_count st + 1\<rparr>)"
    if "emoji_name \<notin> set (keys (existing_emojis st))" "path file_info = file_path"
    using that up[of "outside st"] n
    by (simp add: process_local_def record_failure_def)
  with up c show ?thesis by blast
qed

theorem svg_without_support_witness:
  "upload_emoji (example_env\<lparr>SVG_SUPPORT := False\<rparr>) ''emojis/Icon.SVG'' ''Icon''
     \<lparr>calls = [], tmp = []\<rparr>
   = Inr ((False, ''SVG support not available (cairosvg not installed)'', None),
          \<lparr>calls = [Call_upload_emoji ''emojis/Icon.SVG'' ''Icon''], tmp = []\<rparr>)
   \<and> process_local (example_env\<lparr>SVG_SUPPORT := False\<rparr>)
        (''Icon'', \<lparr>path = ''emojis/Icon.SVG'', relative_path = ''Icon.SVG''\<rparr>)
        (start [] \<lparr>calls = [], tmp = []\<rparr>)
      = Inr ((start [] \<lparr>calls = [Call_upload_emoji ''emojis/Icon.SVG'' ''Icon''], tmp = []\<rparr>)
               \<lparr>error_count := 1\<rparr>)"
proof -
  have h1: "lower (suffix ''emojis/Icon.SVG'') = ''.svg''"
    by (simp add: lower_def suffix_def path_name_def rfind_def lower_char_def)
  have h2: "\<not> SVG_SUPPORT (example_env\<lparr>SVG_SUPPORT := False\<rparr>)" by simp
  have h3: "''Icon'' \<notin> set (keys (existing_emojis (start [] \<lparr>calls = [], tmp = []\<rparr>)))"
    by (simp add: start_def keys_def)
  from svg_without_support [OF h1 h2, of "''Icon''" "\<lparr>calls = [], tmp = []\<rparr>"
      "start [] \<lparr>calls = [], tmp = []\<rparr>"
      "\<lparr>path = ''emojis/Icon.SVG'', relative_path = ''Icon.SVG''\<rparr>"] h3
  show ?thesis by (simp add: start_def)
qed

text \<open>
  Whenever cairosvg is installed, a scratch file is created and the renderer raises, the
  failure is returned with the scratch file still among the files that exist.
\<close>

lemma failed_conversion_keeps_scratch_file:
  assumes "lower (suffix file_path) = ''.svg''" and "SVG_SUPPORT e"
    and "mktemp e (calls w @ [Call_upload_emoji file_path emoji_name]) = Some temp_png"
    and "svg2png e file_path = None"
  shows "upload_emoji e file_path emoji_name w =
           Inr ((False, ''Failed to convert SVG to PNG'', None),
                \<lparr>calls = calls w @ [Call_upload_emoji file_path emoji_name],
                 tmp = AList.update temp_png [] (tmp w)\<rparr>)"
    and "temp_png \<in> set (keys (AList.update temp_png [] (tmp w)))"
  using assms
  by (simp_all add: upload_emoji_def prepare_svg_def convert_svg_to_png_def record_event_def
      keys_def dom_update)

text \<open>
  When the conversion succeeds and the scratch file can be read and unlinked, it is gone
  before the POST request is made.
\<close>

lemma scratch_file_removed_after_read:
  assumes "lower (suffix file_path) = ''.svg''" and "SVG_SUPPORT e"
    and "mktemp e (calls w @ [Call_upload_emoji file_path emoji_name]) = Some temp_png"
    and "temp_png \<noteq> []" and "svg2png e file_path = Some png" and "unlink_ok e temp_png"
    and "upload_emoji e file_path emoji_name w = Inr (r, w')"
  shows "temp_png \<notin> set (keys (tmp w'))"
proof -
  from assms have "tmp w' = AList.delete temp_png (AList.update temp_png png (tmp w))"
    by (auto simp: upload_emoji_def prepare_svg_def convert_svg_to_png_def record_event_def
        image_type_of_def Let_def update_conv' split: option.splits if_splits)
  then show ?thesis by (simp add: keys_delete)
qed

text \<open>
  C8. When the renderer raises, \<open>convert_svg_to_png\<close> has already created the scratch file
  and returns \<open>None\<close>; \<open>upload_emoji\<close> returns its failure and the scratch file is still
  there.
\<close>

theorem scratch_file_left_after_failed_conversion:
  "upload_emoji (example_env\<lparr>svg2png := (\<lambda>p. None)\<rparr>) ''emojis/icon.svg'' ''icon''
     \<lparr>calls = [], tmp = []\<rparr>
   = Inr ((False, ''Failed to convert SVG to PNG'', None),
          \<lparr>calls = [Call_upload_emoji ''emojis/icon.svg'' ''icon''],
           tmp = [(''/tmp/tmp1.png'', [])]\<rparr>)"
  by (simp add: upload_emoji_def prepare_svg_def convert_svg_to_png_def example_env_def
      record_event_def lower_def suffix_def path_name_def rfind_def lower_char_def)

end
